theory Spec2Isabelle
  imports Main "HOL-Library.Sublist"
begin

section \<open>Text\<close>

text \<open>
  A Python \<^verbatim>\<open>str\<close> is a sequence of Unicode code points. Code points are natural
  numbers here, so that U+FEFF (65279, the byte-order mark) and the non-ASCII white space
  that \<^verbatim>\<open>str.strip\<close> removes are ordinary characters. \<open>U\<close> reads an ASCII
  literal as such a sequence.
\<close>

type_synonym ustr = "nat list"

definition U :: "string \<Rightarrow> ustr" where
  "U s = map of_char s"

text \<open>
  \<^verbatim>\<open>str.isspace\<close> for one code point: the characters of bidirectional type WS, B or S
  and of category Zs. U+FEFF is not among them.
\<close>

definition isspace :: "nat \<Rightarrow> bool" where
  "isspace c \<longleftrightarrow>
     (9 \<le> c \<and> c \<le> 13) \<or> (28 \<le> c \<and> c \<le> 32) \<or> c = 133 \<or> c = 160 \<or> c = 5760 \<or>
     (8192 \<le> c \<and> c \<le> 8202) \<or> c = 8232 \<or> c = 8233 \<or> c = 8239 \<or> c = 8287 \<or> c = 12288"

text \<open>\<^verbatim>\<open>s.strip()\<close>: white space is removed at both ends only.\<close>

definition strip :: "ustr \<Rightarrow> ustr" where
  "strip s = rev (dropWhile isspace (rev (dropWhile isspace s)))"

text \<open>
  \<^verbatim>\<open>s.replace(old, new)\<close>: every non-overlapping occurrence of \<open>old\<close>, found from
  the left, is replaced. With an empty \<open>old\<close> Python puts \<open>new\<close> before every
  character and at the end.
\<close>

function replace_from :: "ustr \<Rightarrow> ustr \<Rightarrow> ustr \<Rightarrow> ustr" where
  "replace_from old new [] = []"
| "replace_from old new (c # cs) =
     (if old \<noteq> [] \<and> prefix old (c # cs)
      then new @ replace_from old new (drop (length old) (c # cs))
      else c # replace_from old new cs)"
  by pat_completeness auto
termination
  by (relation "measure (\<lambda>(old, new, s). length s)") auto

definition replace :: "ustr \<Rightarrow> ustr \<Rightarrow> ustr \<Rightarrow> ustr" where
  "replace old new s =
     (if old = [] then new @ concat (map (\<lambda>c. c # new) s) else replace_from old new s)"

text \<open>\<^verbatim>\<open>s.endswith(suffix)\<close>.\<close>

definition endswith :: "ustr \<Rightarrow> ustr \<Rightarrow> bool" where
  "endswith s suf = suffix suf s"

section \<open>The template table\<close>

text \<open>
  \<^verbatim>\<open>class PromptTemplate(Base)\<close> (app.py, lines 16 to 22): one row of the table
  \<^verbatim>\<open>templates\<close>. Time stamps are natural numbers, the clock's reading when the row
  is written. The table is the list of its rows in the order of insertion.
\<close>

record template =
  id' :: nat
  name :: ustr
  content :: ustr
  created_at :: nat
  updated_at :: nat

type_synonym table = "template list"

datatype error =
    IntegrityError
  | AttributeError
  | FileNotFoundError
  | IsADirectoryError
  | CsvError
  | EngineError string

text \<open>
  \<^verbatim>\<open>session.commit()\<close>: the pending rows reach the database, which enforces
  \<^verbatim>\<open>unique=True\<close> of the column \<^verbatim>\<open>name\<close> (line 19). A violation raises
  IntegrityError and nothing is written.
\<close>

definition commit :: "table \<Rightarrow> error + table" where
  "commit rows = (if distinct (map name rows) then Inr rows else Inl IntegrityError)"

text \<open>\<^verbatim>\<open>session.query(PromptTemplate).filter_by(name=n).first()\<close>; the name asked for
  is \<open>None\<close> when a select box over no options returned nothing.\<close>

definition query_first :: "table \<Rightarrow> ustr option \<Rightarrow> template option" where
  "query_first rows n = find (\<lambda>t. Some (name t) = n) rows"

text \<open>The integer primary key of a new row: one more than the largest in use.\<close>

definition next_id :: "table \<Rightarrow> nat" where
  "next_id rows = Suc (fold max (map id' rows) 0)"

text \<open>\<^verbatim>\<open>PromptTemplate(name=n, content=c)\<close> once inserted: both time stamps take their
  default, the clock.\<close>

definition new_template :: "table \<Rightarrow> ustr \<Rightarrow> ustr \<Rightarrow> nat \<Rightarrow> template" where
  "new_template rows n c now =
     \<lparr>id' = next_id rows, name = n, content = c, created_at = now, updated_at = now\<rparr>"

text \<open>
  \<^verbatim>\<open>tpl.content = c\<close> on the first row named \<open>n\<close> (the object that
  \<^verbatim>\<open>.first()\<close> returned). The row is written, and \<^verbatim>\<open>onupdate\<close> refreshes
  \<^verbatim>\<open>updated_at\<close>, only when the value changes.
\<close>

fun set_content :: "ustr \<Rightarrow> ustr \<Rightarrow> nat \<Rightarrow> table \<Rightarrow> table" where
  "set_content n c now [] = []"
| "set_content n c now (t # ts) =
     (if name t = n
      then (if content t = c then t else t\<lparr>content := c, updated_at := now\<rparr>) # ts
      else t # set_content n c now ts)"

section \<open>Seeding (app.py, lines 38 to 51)\<close>

text \<open>\<^verbatim>\<open>name = file.replace(".txt", "")\<close> (line 42).\<close>

definition template_name :: "ustr \<Rightarrow> ustr" where
  "template_name file = replace (U ''.txt'') [] file"

text \<open>
  The loop of lines 41 to 50 over the files of the seed directory, each given with the
  text read from it. \<open>existing_names\<close> is computed once, before the loop (line 39).
  Assigning to the content of a row that \<^verbatim>\<open>.first()\<close> did not find would raise
  AttributeError.
\<close>

fun seed_loop :: "ustr set \<Rightarrow> nat \<Rightarrow> (ustr \<times> ustr) list \<Rightarrow> table \<Rightarrow> error + table" where
  "seed_loop existing_names now [] rows = Inr rows"
| "seed_loop existing_names now ((file, text) # rest) rows =
     (let nm = template_name file in
      if nm \<in> existing_names
      then (case query_first rows (Some nm) of
              None \<Rightarrow> Inl AttributeError
            | Some existing_tpl \<Rightarrow> seed_loop existing_names now rest (set_content nm text now rows))
      else seed_loop existing_names now rest (rows @ [new_template rows nm text now]))"

text \<open>
  The whole step: \<open>listing\<close> is \<^verbatim>\<open>os.listdir(TEMPLATE_DIR)\<close> with each file's
  text, \<open>rows\<close> the table before. The result is the table after the commit of line 51,
  or the error that ends the start-up and leaves the table as it was.
\<close>

definition seed_templates :: "nat \<Rightarrow> (ustr \<times> ustr) list \<Rightarrow> table \<Rightarrow> error + table" where
  "seed_templates now listing rows =
     (let existing_names = set (map name rows);
          fallback_files = filter (\<lambda>(f, text). endswith f (U ''.txt'')) listing
      in case seed_loop existing_names now fallback_files rows of
           Inl e \<Rightarrow> Inl e
         | Inr rows' \<Rightarrow> commit rows')"

section \<open>The template manager (app.py, lines 86 to 118)\<close>

text \<open>What a handler shows in the side bar: \<^verbatim>\<open>st.sidebar.error\<close> or
  \<^verbatim>\<open>st.sidebar.success\<close>.\<close>

datatype notice = StError string | StSuccess string

text \<open>
  Mode Create (lines 86 to 96). \<open>save\<close> is the button; the handler does nothing
  unless the button is pressed and both fields are non-empty.
\<close>

definition create_mode ::
  "table \<Rightarrow> bool \<Rightarrow> ustr \<Rightarrow> ustr \<Rightarrow> nat \<Rightarrow> error + (table \<times> notice option)" where
  "create_mode rows save new_name new_content now =
     (if save \<and> new_name \<noteq> [] \<and> new_content \<noteq> [] then
        (case query_first rows (Some new_name) of
           Some existing \<Rightarrow> Inr (rows, Some (StError ''Template with this name already exists.''))
         | None \<Rightarrow>
             (case commit (rows @ [new_template rows new_name new_content now]) of
                Inl e \<Rightarrow> Inl e
              | Inr rows' \<Rightarrow> Inr (rows', Some (StSuccess ''Template saved.''))))
      else Inr (rows, None))"

text \<open>
  Mode Edit (lines 98 to 107). \<open>edit_choice\<close> is what the select box returned
  (\<open>None\<close> over an empty table), \<open>edited_content\<close> the text area's value. Line 103
  reads \<^verbatim>\<open>selected_tpl.content\<close> before any button is looked at, so a missing row
  raises AttributeError.
\<close>

definition edit_mode ::
  "table \<Rightarrow> ustr option \<Rightarrow> ustr \<Rightarrow> bool \<Rightarrow> nat \<Rightarrow> error + (table \<times> notice option)" where
  "edit_mode rows edit_choice edited_content update now =
     (case query_first rows edit_choice of
        None \<Rightarrow> Inl AttributeError
      | Some selected_tpl \<Rightarrow>
          if update then
            (case commit (set_content (name selected_tpl) edited_content now rows) of
               Inl e \<Rightarrow> Inl e
             | Inr rows' \<Rightarrow> Inr (rows', Some (StSuccess ''Template updated.'')))
          else Inr (rows, None))"

text \<open>Mode Delete (lines 109 to 118): \<^verbatim>\<open>if to_delete:\<close> guards the deletion, and
  there is no else branch.\<close>

definition delete_mode ::
  "table \<Rightarrow> ustr option \<Rightarrow> bool \<Rightarrow> error + (table \<times> notice option)" where
  "delete_mode rows delete_choice delete =
     (if delete then
        (case query_first rows delete_choice of
           Some to_delete \<Rightarrow>
             (case commit (remove1 to_delete rows) of
                Inl e \<Rightarrow> Inl e
              | Inr rows' \<Rightarrow> Inr (rows', Some (StSuccess ''Template deleted.'')))
         | None \<Rightarrow> Inr (rows, None))
      else Inr (rows, None))"

text \<open>The table a handler leaves behind: an exception ends the run of the script with
  nothing committed.\<close>

definition table_after :: "table \<Rightarrow> error + (table \<times> notice option) \<Rightarrow> table" where
  "table_after rows r = (case r of Inl e \<Rightarrow> rows | Inr (rows', n) \<Rightarrow> rows')"

text \<open>What the user is shown: the notice of a run that ended normally.\<close>

definition shown :: "error + (table \<times> notice option) \<Rightarrow> notice option" where
  "shown r = (case r of Inl e \<Rightarrow> None | Inr (rows', n) \<Rightarrow> n)"

text \<open>
  The tables the program can hold: the empty table that \<^verbatim>\<open>create_all\<close> makes,
  and whatever seeding and the three modes that write leave behind when they end
  normally.
\<close>

inductive reachable :: "table \<Rightarrow> bool" where
  created: "reachable []"
| seeded: "reachable rows \<Longrightarrow> seed_templates now listing rows = Inr rows' \<Longrightarrow> reachable rows'"
| create: "reachable rows \<Longrightarrow>
     create_mode rows save new_name new_content now = Inr (rows', ntc) \<Longrightarrow> reachable rows'"
| edit: "reachable rows \<Longrightarrow>
     edit_mode rows edit_choice edited_content update now = Inr (rows', ntc) \<Longrightarrow> reachable rows'"
| delete: "reachable rows \<Longrightarrow>
     delete_mode rows delete_choice del = Inr (rows', ntc) \<Longrightarrow> reachable rows'"

section \<open>Rows of the data file\<close>

text \<open>
  A Python \<^verbatim>\<open>dict\<close> as the list of its items in insertion order. Assigning to a key
  that is present replaces the value where the key stands; a new key goes to the end.
\<close>

fun dict_set :: "'k \<Rightarrow> 'v \<Rightarrow> ('k \<times> 'v) list \<Rightarrow> ('k \<times> 'v) list" where
  "dict_set k v [] = [(k, v)]"
| "dict_set k v ((k', v') # d) =
     (if k' = k then (k, v) # d else (k', v') # dict_set k v d)"

text \<open>\<^verbatim>\<open>dict(pairs)\<close>: the pairs are assigned in turn.\<close>

definition dict :: "('k \<times> 'v) list \<Rightarrow> ('k \<times> 'v) list" where
  "dict pairs = fold (\<lambda>(k, v). dict_set k v) pairs []"

text \<open>
  What \<^verbatim>\<open>csv.DictReader\<close> puts in a row: a field of the line (a string), the
  \<^verbatim>\<open>restval\<close> \<^verbatim>\<open>None\<close> for a header without a field, and under the
  \<^verbatim>\<open>restkey\<close> \<^verbatim>\<open>None\<close> the list of the fields beyond the header. The key
  \<open>None\<close> is the only key that is not a string.
\<close>

datatype cell = Str ustr | NoneVal | ListVal "ustr list"

type_synonym csv_row = "(ustr option \<times> cell) list"

subsection \<open>The row sanitizer (app.py, lines 54 and 55)\<close>

text \<open>\<^verbatim>\<open>k.strip().replace(BOM, '')\<close> with BOM the character U+FEFF: the key is
  stripped first, then the byte-order marks are removed from the stripped key.\<close>

definition clean_key :: "ustr \<Rightarrow> ustr" where
  "clean_key k = replace [65279] [] (strip k)"

text \<open>\<^verbatim>\<open>v.strip() if isinstance(v, str) else ''\<close>.\<close>

definition clean_value :: "cell \<Rightarrow> ustr" where
  "clean_value v = (case v of Str s \<Rightarrow> strip s | NoneVal \<Rightarrow> [] | ListVal l \<Rightarrow> [])"

text \<open>The dict comprehension: the items are visited in order, those with a key that is
  not a string are skipped, and a cleaned key met again takes the later value.\<close>

definition clean_row :: "csv_row \<Rightarrow> (ustr \<times> ustr) list" where
  "clean_row row =
     fold (\<lambda>(k, v) d. case k of None \<Rightarrow> d | Some ks \<Rightarrow> dict_set (clean_key ks) (clean_value v) d)
       row []"

section \<open>Reading the data file\<close>

text \<open>
  \<^verbatim>\<open>open(csv_path, 'r', encoding='utf-8-sig')\<close>. The file is given by the code points
  its bytes encode; the codec drops one byte-order mark at the very start, and text mode
  turns \<^verbatim>\<open>\r\n\<close> and a lone \<^verbatim>\<open>\r\<close> into \<^verbatim>\<open>\n\<close>. Iterating the file gives
  its lines, each with its \<^verbatim>\<open>\n\<close>.
\<close>

definition decode_utf8_sig :: "ustr \<Rightarrow> ustr" where
  "decode_utf8_sig s = (case s of [] \<Rightarrow> [] | c # cs \<Rightarrow> if c = 65279 then cs else c # cs)"

fun universal_newlines :: "ustr \<Rightarrow> ustr" where
  "universal_newlines [] = []"
| "universal_newlines [c] = [if c = 13 then 10 else c]"
| "universal_newlines (c # d # cs) =
     (if c = 13 \<and> d = 10 then 10 # universal_newlines cs
      else if c = 13 then 10 # universal_newlines (d # cs)
      else c # universal_newlines (d # cs))"

fun lines_from :: "ustr \<Rightarrow> ustr \<Rightarrow> ustr list" where
  "lines_from cur [] = (if cur = [] then [] else [cur])"
| "lines_from cur (c # cs) =
     (if c = 10 then (cur @ [c]) # lines_from [] cs else lines_from (cur @ [c]) cs)"

definition file_lines :: "ustr \<Rightarrow> ustr list" where
  "file_lines raw = lines_from [] (universal_newlines (decode_utf8_sig raw))"

subsection \<open>The reader of the csv module, dialect excel\<close>

text \<open>
  The state machine of \<^verbatim>\<open>csv.reader\<close> for the default dialect: delimiter comma (44),
  quote character double quote (34) doubled inside a quoted field, no escape character,
  not strict, as of Python 3.11 (where a NUL is a character like any other). The end of a
  line is the input \<open>None\<close>. A field may grow to the module's field size limit; the
  character that would take it beyond raises \<^verbatim>\<open>csv.Error\<close>.
\<close>

datatype csv_state =
  START_RECORD | START_FIELD | IN_FIELD | IN_QUOTED_FIELD | QUOTE_IN_QUOTED_FIELD | EAT_CRNL

record reader =
  state :: csv_state
  field :: ustr
  fields' :: "ustr list"

definition parse_reset :: reader where
  "parse_reset = \<lparr>state = START_RECORD, field = [], fields' = []\<rparr>"

definition parse_save_field :: "reader \<Rightarrow> reader" where
  "parse_save_field r = r\<lparr>fields' := fields' r @ [field r], field := []\<rparr>"

definition field_limit :: nat where
  "field_limit = 131072"

definition parse_add_char :: "reader \<Rightarrow> nat \<Rightarrow> error + reader" where
  "parse_add_char r c =
     (if field_limit \<le> length (field r) then Inl CsvError
      else Inr (r\<lparr>field := field r @ [c]\<rparr>))"

text \<open>The character is added first and the state set afterwards, unless adding it
  failed.\<close>

definition then_state :: "error + reader \<Rightarrow> csv_state \<Rightarrow> error + reader" where
  "then_state x s = (case x of Inl e \<Rightarrow> Inl e | Inr r \<Rightarrow> Inr (r\<lparr>state := s\<rparr>))"

definition end_of_line :: "reader \<Rightarrow> nat option \<Rightarrow> reader" where
  "end_of_line r c =
     (parse_save_field r)\<lparr>state := (if c = None then START_RECORD else EAT_CRNL)\<rparr>"

definition is_newline :: "nat option \<Rightarrow> bool" where
  "is_newline c \<longleftrightarrow> c = Some 10 \<or> c = Some 13"

definition start_field :: "reader \<Rightarrow> nat option \<Rightarrow> error + reader" where
  "start_field r c =
     (case c of
        None \<Rightarrow> Inr (end_of_line r c)
      | Some ch \<Rightarrow>
          if is_newline c then Inr (end_of_line r c)
          else if ch = 34 then Inr (r\<lparr>state := IN_QUOTED_FIELD\<rparr>)
          else if ch = 44 then Inr ((parse_save_field r)\<lparr>state := START_FIELD\<rparr>)
          else then_state (parse_add_char r ch) IN_FIELD)"

definition parse_process_char :: "reader \<Rightarrow> nat option \<Rightarrow> error + reader" where
  "parse_process_char r c =
     (case state r of
        START_RECORD \<Rightarrow>
          (if c = None then Inr r
           else if is_newline c then Inr (r\<lparr>state := EAT_CRNL\<rparr>)
           else start_field (r\<lparr>state := START_FIELD\<rparr>) c)
      | START_FIELD \<Rightarrow> start_field r c
      | IN_FIELD \<Rightarrow>
          (case c of
             None \<Rightarrow> Inr (end_of_line r c)
           | Some ch \<Rightarrow>
               if is_newline c then Inr (end_of_line r c)
               else if ch = 44 then Inr ((parse_save_field r)\<lparr>state := START_FIELD\<rparr>)
               else parse_add_char r ch)
      | IN_QUOTED_FIELD \<Rightarrow>
          (case c of
             None \<Rightarrow> Inr r
           | Some ch \<Rightarrow>
               if ch = 34 then Inr (r\<lparr>state := QUOTE_IN_QUOTED_FIELD\<rparr>)
               else parse_add_char r ch)
      | QUOTE_IN_QUOTED_FIELD \<Rightarrow>
          (case c of
             None \<Rightarrow> Inr (end_of_line r c)
           | Some ch \<Rightarrow>
               if ch = 34 then then_state (parse_add_char r ch) IN_QUOTED_FIELD
               else if ch = 44 then Inr ((parse_save_field r)\<lparr>state := START_FIELD\<rparr>)
               else if is_newline c then Inr (end_of_line r c)
               else then_state (parse_add_char r ch) IN_FIELD)
      | EAT_CRNL \<Rightarrow>
          (if c = None then Inr (r\<lparr>state := START_RECORD\<rparr>)
           else if is_newline c then Inr r
           else Inl CsvError))"

text \<open>One line: its characters, then the end of the line.\<close>

fun process_line :: "reader \<Rightarrow> ustr \<Rightarrow> error + reader" where
  "process_line r [] = parse_process_char r None"
| "process_line r (c # cs) =
     (case parse_process_char r (Some c) of
        Inl e \<Rightarrow> Inl e
      | Inr r' \<Rightarrow> process_line r' cs)"

text \<open>
  The records the reader yields from the lines, with the error that ends the iteration
  if there is one. A record is complete when a line ends in the state START\_RECORD;
  otherwise the next line continues it. When the lines run out inside a record, the
  record is yielded if a field is under way or a quoted field is open.
\<close>

fun reader_records :: "reader \<Rightarrow> ustr list \<Rightarrow> ustr list list \<times> error option" where
  "reader_records r [] =
     (if field r \<noteq> [] \<or> state r = IN_QUOTED_FIELD
      then ([fields' (parse_save_field r)], None) else ([], None))"
| "reader_records r (l # ls) =
     (case process_line r l of
        Inl e \<Rightarrow> ([], Some e)
      | Inr r' \<Rightarrow>
          if state r' = START_RECORD
          then (case reader_records parse_reset ls of (recs, e) \<Rightarrow> (fields' r' # recs, e))
          else reader_records r' ls)"

definition csv_reader :: "ustr list \<Rightarrow> ustr list list \<times> error option" where
  "csv_reader ls = reader_records parse_reset ls"

subsection \<open>DictReader\<close>

text \<open>
  \<^verbatim>\<open>csv.DictReader\<close>: the first record is the header, blank records after it are
  skipped, and every other record is zipped with the header. Fields beyond the header go
  under the key \<open>None\<close> as a list; headers beyond the fields get the value \<open>None\<close>.
\<close>

definition dict_row :: "ustr list \<Rightarrow> ustr list \<Rightarrow> csv_row" where
  "dict_row fieldnames row =
     (let d = dict (zip (map Some fieldnames) (map Str row));
          lf = length fieldnames;
          lr = length row
      in if lf < lr then dict_set None (ListVal (drop lf row)) d
         else if lr < lf then fold (\<lambda>key. dict_set (Some key) NoneVal) (drop lr fieldnames) d
         else d)"

definition DictReader :: "ustr list list \<Rightarrow> csv_row list" where
  "DictReader recs =
     (case recs of
        [] \<Rightarrow> []
      | fieldnames # rest \<Rightarrow> map (dict_row fieldnames) (filter (\<lambda>r. r \<noteq> []) rest))"

section \<open>Files\<close>

text \<open>
  The three places the program writes: the directory \<^verbatim>\<open>data\<close>, the directory
  \<^verbatim>\<open>generated_prompts\<close> and the file \<^verbatim>\<open>output.zip\<close>. A directory is the list
  of its entries by name, in the order \<^verbatim>\<open>os.listdir\<close> gives them; an entry is a file
  with its content or a subdirectory. The fields of the record are named after the
  constants of lines 29 to 31 that hold the three paths. The content of a file is the
  text its bytes encode.
\<close>

datatype node = File ustr | Dir

type_synonym directory = "(ustr \<times> node) list"

datatype compression = ZIP_STORED | ZIP_DEFLATED

record zip_entry =
  arcname :: ustr
  payload :: ustr
  compress_type :: compression

record filesystem =
  DATA_DIR :: directory
  OUTPUT_DIR :: directory
  ZIP_PATH :: "zip_entry list option"

text \<open>\<^verbatim>\<open>os.path.join(a, b)\<close> on POSIX paths.\<close>

definition os_path_join :: "ustr \<Rightarrow> ustr \<Rightarrow> ustr" where
  "os_path_join a b =
     (if b \<noteq> [] \<and> hd b = 47 then b
      else if a = [] \<or> last a = 47 then a @ b
      else a @ [47] @ b)"

text \<open>\<^verbatim>\<open>open(path, 'r')\<close> and \<^verbatim>\<open>open(path, 'w')\<close> followed by a write, on a
  name in a directory.\<close>

definition open_read :: "directory \<Rightarrow> ustr \<Rightarrow> error + ustr" where
  "open_read d n =
     (case map_of d n of
        None \<Rightarrow> Inl FileNotFoundError
      | Some Dir \<Rightarrow> Inl IsADirectoryError
      | Some (File c) \<Rightarrow> Inr c)"

definition open_write :: "directory \<Rightarrow> ustr \<Rightarrow> ustr \<Rightarrow> error + directory" where
  "open_write d n c =
     (case map_of d n of
        Some Dir \<Rightarrow> Inl IsADirectoryError
      | _ \<Rightarrow> Inr (dict_set n (File c) d))"

section \<open>The renderer (app.py, lines 57 to 70)\<close>

text \<open>\<^verbatim>\<open>str(idx)\<close>: the decimal digits of a natural number.\<close>

function str_nat :: "nat \<Rightarrow> ustr" where
  "str_nat n = (if n < 10 then [48 + n] else str_nat (n div 10) @ [48 + n mod 10])"
  by pat_completeness auto
termination
  by (relation "measure (\<lambda>n. n)") auto

declare str_nat.simps [simp del]

text \<open>
  The template engine is a parameter: \<^verbatim>\<open>Template(template_str).render(**clean)\<close>
  gives a text or raises.
\<close>

type_synonym engine = "ustr \<Rightarrow> (ustr \<times> ustr) list \<Rightarrow> error + ustr"

text \<open>
  The loop of lines 61 to 69 over the rows, from the index \<open>idx\<close>. It returns the output
  directory as the loop leaves it and the list \<open>prompts\<close> or the error that ended it:
  the files written before an error stay.
\<close>

fun render_rows ::
  "engine \<Rightarrow> ustr \<Rightarrow> nat \<Rightarrow> csv_row list \<Rightarrow> directory \<Rightarrow> (ustr \<times> ustr) list \<Rightarrow>
   directory \<times> (error + (ustr \<times> ustr) list)" where
  "render_rows render template_str idx [] out prompts = (out, Inr prompts)"
| "render_rows render template_str idx (row # rows) out prompts =
     (let clean = clean_row row in
      case render template_str clean of
        Inl e \<Rightarrow> (out, Inl e)
      | Inr result \<Rightarrow>
          (let filename = U ''prompt_'' @ str_nat idx @ U ''.txt'';
               filepath = os_path_join (U ''generated_prompts'') filename in
           case open_write out filename result of
             Inl e \<Rightarrow> (out, Inl e)
           | Inr out' \<Rightarrow>
               render_rows render template_str (Suc idx) rows out' (prompts @ [(filename, result)])))"

text \<open>
  \<^verbatim>\<open>render_prompts(template_str, csv_path)\<close>; \<open>csv_path\<close> is the name of a file in
  the directory \<^verbatim>\<open>data\<close>, where the one call of the function has it. An error of the
  reader surfaces after the rows read before it have been rendered.
\<close>

definition render_prompts ::
  "engine \<Rightarrow> ustr \<Rightarrow> ustr \<Rightarrow> filesystem \<Rightarrow> filesystem \<times> (error + (ustr \<times> ustr) list)" where
  "render_prompts render template_str csv_path fs =
     (case open_read (DATA_DIR fs) csv_path of
        Inl e \<Rightarrow> (fs, Inl e)
      | Inr raw \<Rightarrow>
          (case csv_reader (file_lines raw) of
             (recs, failure) \<Rightarrow>
               (case render_rows render template_str 1 (DictReader recs) (OUTPUT_DIR fs) [] of
                  (out, r) \<Rightarrow>
                    (fs\<lparr>OUTPUT_DIR := out\<rparr>,
                     case r of
                       Inl e \<Rightarrow> Inl e
                     | Inr prompts \<Rightarrow>
                         (case failure of Some e \<Rightarrow> Inl e | None \<Rightarrow> Inr prompts)))))"

section \<open>The archiver (app.py, lines 72 to 76)\<close>

text \<open>
  \<^verbatim>\<open>zipf.write(filename, arcname)\<close> for one entry of a directory: the entry of the
  archive is named by \<open>arcname\<close>, and by the path \<open>filename\<close> when no
  \<open>arcname\<close> is given. A subdirectory becomes an empty entry whose name ends in a
  slash; what it holds is not visited. The names of a directory's entries have no slash,
  and such a name is an archive name as it is.
\<close>

definition zipf_write :: "compression \<Rightarrow> ustr \<Rightarrow> ustr option \<Rightarrow> node \<Rightarrow> zip_entry" where
  "zipf_write method filename arc nd =
     (let nm = (case arc of None \<Rightarrow> filename | Some a \<Rightarrow> a) in
      case nd of
        File c \<Rightarrow> \<lparr>arcname = nm, payload = c, compress_type = method\<rparr>
      | Dir \<Rightarrow> \<lparr>arcname = nm @ U ''/'', payload = [], compress_type = ZIP_STORED\<rparr>)"

text \<open>
  \<^verbatim>\<open>zipfile.ZipFile(ZIP_PATH, 'w')\<close> starts an empty archive in place of the file
  that was there; no compression is asked for, so the archive's method is the default of
  the class, ZIP\_STORED.
\<close>

definition zip_output :: "filesystem \<Rightarrow> filesystem" where
  "zip_output fs =
     fs\<lparr>ZIP_PATH := Some (map (\<lambda>(file, nd).
            zipf_write ZIP_STORED (os_path_join (U ''generated_prompts'') file) (Some file) nd)
          (OUTPUT_DIR fs))\<rparr>"

section \<open>The generation action (app.py, lines 121 to 142)\<close>

text \<open>
  The state a run of the script works on: the files and
  \<^verbatim>\<open>st.session_state['results']\<close>.
\<close>

record app =
  files :: filesystem
  results :: "(ustr \<times> ustr) list option"

text \<open>
  \<open>selected_name\<close> is the select box's value, \<open>csv_file\<close> the uploaded file if there
  is one, \<open>pressed\<close> the button. The handler returns the state it leaves and the
  exception that ended the run, if any.
\<close>

definition generate_prompts ::
  "engine \<Rightarrow> table \<Rightarrow> ustr option \<Rightarrow> ustr option \<Rightarrow> bool \<Rightarrow> app \<Rightarrow> app \<times> error option" where
  "generate_prompts render rows selected_name csv_file pressed st =
     (case (query_first rows selected_name, csv_file) of
        (Some selected_template, Some upload) \<Rightarrow>
          if pressed then
            (let fs1 = (files st)\<lparr>OUTPUT_DIR := []\<rparr> in
             case open_write (DATA_DIR fs1) (U ''uploaded.csv'') upload of
               Inl e \<Rightarrow> (st\<lparr>files := fs1\<rparr>, Some e)
             | Inr data \<Rightarrow>
                 (case render_prompts render (content selected_template) (U ''uploaded.csv'')
                         (fs1\<lparr>DATA_DIR := data\<rparr>) of
                    (fs2, Inl e) \<Rightarrow> (st\<lparr>files := fs2\<rparr>, Some e)
                  | (fs2, Inr prompts) \<Rightarrow>
                      (\<lparr>files = zip_output fs2, results = Some prompts\<rparr>, None)))
          else (st, None)
      | _ \<Rightarrow> (st, None))"

section \<open>The template engine on plain placeholders\<close>

text \<open>
  What Jinja2 does, with its default settings, on the templates the specification speaks
  of: literal text and placeholders \<^verbatim>\<open>{{ name }}\<close>. The text is covered when it has
  no line break, no \<^verbatim>\<open>{%\<close> and no \<^verbatim>\<open>{#\<close>, and every \<^verbatim>\<open>{{\<close> opens a
  placeholder: spaces, an identifier of ASCII letters, digits and underscores that is a
  key of the context and not a word to which the engine gives a meaning of its own,
  spaces, \<^verbatim>\<open>}}\<close>. The placeholder is replaced by the value of the key. On any other text, and
  on a context with the key \<^verbatim>\<open>self\<close>, the result is \<open>None\<close>: not covered.
\<close>

definition ident_start :: "nat \<Rightarrow> bool" where
  "ident_start c \<longleftrightarrow> (65 \<le> c \<and> c \<le> 90) \<or> (97 \<le> c \<and> c \<le> 122) \<or> c = 95"

definition ident_char :: "nat \<Rightarrow> bool" where
  "ident_char c \<longleftrightarrow> ident_start c \<or> (48 \<le> c \<and> c \<le> 57)"

definition reserved_words :: "ustr list" where
  "reserved_words = map U [''true'', ''false'', ''none'', ''True'', ''False'', ''None'',
     ''and'', ''or'', ''not'', ''in'', ''is'', ''if'', ''else'', ''self'', ''super'', ''loop'',
     ''caller'', ''varargs'', ''kwargs'']"

definition lookup_name :: "(ustr \<times> ustr) list \<Rightarrow> ustr \<Rightarrow> ustr option" where
  "lookup_name ctx n = (if n \<in> set reserved_words then None else map_of ctx n)"

datatype lexer_mode = Data | Opened | Ident ustr | Closing ustr

fun jinja_scan :: "lexer_mode \<Rightarrow> (ustr \<times> ustr) list \<Rightarrow> ustr \<Rightarrow> ustr option" where
  "jinja_scan Data ctx [] = Some []"
| "jinja_scan Data ctx [c] = (if c = 10 \<or> c = 13 then None else Some [c])"
| "jinja_scan Data ctx (c # d # cs) =
     (if c = 10 \<or> c = 13 then None
      else if c = 123 \<and> d = 123 then jinja_scan Opened ctx cs
      else if c = 123 \<and> (d = 37 \<or> d = 35) then None
      else map_option ((#) c) (jinja_scan Data ctx (d # cs)))"
| "jinja_scan Opened ctx [] = None"
| "jinja_scan Opened ctx (c # cs) =
     (if c = 32 then jinja_scan Opened ctx cs
      else if ident_start c then jinja_scan (Ident [c]) ctx cs
      else None)"
| "jinja_scan (Ident n) ctx [] = None"
| "jinja_scan (Ident n) ctx [c] = None"
| "jinja_scan (Ident n) ctx (c # d # cs) =
     (if ident_char c then jinja_scan (Ident (n @ [c])) ctx (d # cs)
      else if c = 32 then jinja_scan (Closing n) ctx (d # cs)
      else if c = 125 \<and> d = 125 then
        (case lookup_name ctx n of
           None \<Rightarrow> None
         | Some v \<Rightarrow> map_option ((@) v) (jinja_scan Data ctx cs))
      else None)"
| "jinja_scan (Closing n) ctx [] = None"
| "jinja_scan (Closing n) ctx [c] = None"
| "jinja_scan (Closing n) ctx (c # d # cs) =
     (if c = 32 then jinja_scan (Closing n) ctx (d # cs)
      else if c = 125 \<and> d = 125 then
        (case lookup_name ctx n of
           None \<Rightarrow> None
         | Some v \<Rightarrow> map_option ((@) v) (jinja_scan Data ctx cs))
      else None)"

definition jinja_fragment :: "ustr \<Rightarrow> (ustr \<times> ustr) list \<Rightarrow> ustr option" where
  "jinja_fragment template_str ctx =
     (if U ''self'' \<in> set (map fst ctx) then None else jinja_scan Data ctx template_str)"

text \<open>An engine agrees with Jinja2 when it gives that result wherever the text is
  covered.\<close>

definition agrees_with_jinja :: "engine \<Rightarrow> bool" where
  "agrees_with_jinja render \<longleftrightarrow>
     (\<forall>template_str ctx result.
        jinja_fragment template_str ctx = Some result \<longrightarrow> render template_str ctx = Inr result)"

text \<open>One such engine: it raises on every text that is not covered.\<close>

definition covered_only :: engine where
  "covered_only template_str ctx =
     (case jinja_fragment template_str ctx of
        None \<Rightarrow> Inl (EngineError ''not covered'')
      | Some result \<Rightarrow> Inr result)"

section \<open>Notions used to state the properties\<close>

text \<open>The name and the content a directory entry has in the archive: a file keeps its
  name, a subdirectory gets a slash and no content.\<close>

definition entry_name :: "ustr \<times> node \<Rightarrow> ustr" where
  "entry_name e = (case e of (file, File c) \<Rightarrow> file | (file, Dir) \<Rightarrow> file @ U ''/'')"

definition entry_payload :: "ustr \<times> node \<Rightarrow> ustr" where
  "entry_payload e = (case e of (file, File c) \<Rightarrow> c | (file, Dir) \<Rightarrow> [])"

text \<open>The file name of the prompt with index \<open>idx\<close>, and the directory that holds
  exactly the files of a list of (file name, text) pairs.\<close>

definition prompt_filename :: "nat \<Rightarrow> ustr" where
  "prompt_filename idx = U ''prompt_'' @ str_nat idx @ U ''.txt''"

definition written :: "(ustr \<times> ustr) list \<Rightarrow> directory" where
  "written prompts = map (\<lambda>(filename, result). (filename, File result)) prompts"

text \<open>The archive that holds exactly the files of such a list, each stored.\<close>

definition archive_of :: "(ustr \<times> ustr) list \<Rightarrow> zip_entry list" where
  "archive_of prompts =
     map (\<lambda>(filename, result).
            \<lparr>arcname = filename, payload = result, compress_type = ZIP_STORED\<rparr>) prompts"

text \<open>The number a string of decimal digits stands for.\<close>

definition digits_value :: "ustr \<Rightarrow> nat" where
  "digits_value ds = fold (\<lambda>c acc. 10 * acc + (c - 48)) ds 0"

text \<open>A line as text mode gives it: no carriage return, and a line feed only at the
  end.\<close>

definition text_line :: "ustr \<Rightarrow> bool" where
  "text_line l \<longleftrightarrow> 13 \<notin> set l \<and> 10 \<notin> set (butlast l)"

text \<open>A data file that consists of a header row only: after its first line it has
  nothing, or empty lines.\<close>

definition header_only :: "ustr \<Rightarrow> bool" where
  "header_only raw \<longleftrightarrow> list_all (\<lambda>l. l = [10]) (tl (file_lines raw))"

text \<open>
  The data files with the header \<^verbatim>\<open>Name,Age\<close> and the one row
  \<^verbatim>\<open>Alice,30\<close>: with or without a byte-order mark, with any of the three line
  ends, with or without a line end after the row.
\<close>

definition sample_uploads :: "ustr list" where
  "sample_uploads =
     [bom @ U ''Name,Age'' @ nl @ U ''Alice,30'' @ fin.
        bom \<leftarrow> [[], [65279]], nl \<leftarrow> [[10], [13], [13, 10]], fin \<leftarrow> [[], [10], [13], [13, 10]]]"

text \<open>A table with one template and a state with empty directories, for examples.\<close>

definition example_table :: table where
  "example_table =
     [\<lparr>id' = 1, name = U ''greeting'', content = U ''Hello {{ Name }}, you are {{ Age }}'',
       created_at = 7, updated_at = 7\<rparr>]"

definition fresh_state :: app where
  "fresh_state = \<lparr>files = \<lparr>DATA_DIR = [], OUTPUT_DIR = [], ZIP_PATH = None\<rparr>, results = None\<rparr>"

text \<open>Two uploads for two successive runs of the generation action, the state the first
  run leaves from the fresh state, and the state the second run leaves from there.\<close>

definition first_upload :: ustr where
  "first_upload = U ''Name,Age'' @ [10] @ U ''Alice,30'' @ [10] @ U ''Bob,41'' @ [10]"

definition second_upload :: ustr where
  "second_upload = U ''Name,Age'' @ [10] @ U ''Carol,52'' @ [10]"

definition after_first_run :: app where
  "after_first_run =
     \<lparr>files =
        \<lparr>DATA_DIR = [(U ''uploaded.csv'', File first_upload)],
         OUTPUT_DIR = [(U ''prompt_1.txt'', File (U ''Hello Alice, you are 30'')),
                       (U ''prompt_2.txt'', File (U ''Hello Bob, you are 41''))],
         ZIP_PATH = Some [\<lparr>arcname = U ''prompt_1.txt'', payload = U ''Hello Alice, you are 30'',
                            compress_type = ZIP_STORED\<rparr>,
                          \<lparr>arcname = U ''prompt_2.txt'', payload = U ''Hello Bob, you are 41'',
                            compress_type = ZIP_STORED\<rparr>]\<rparr>,
      results = Some [(U ''prompt_1.txt'', U ''Hello Alice, you are 30''),
                      (U ''prompt_2.txt'', U ''Hello Bob, you are 41'')]\<rparr>"

definition after_second_run :: app where
  "after_second_run =
     \<lparr>files =
        \<lparr>DATA_DIR = [(U ''uploaded.csv'', File second_upload)],
         OUTPUT_DIR = [(U ''prompt_1.txt'', File (U ''Hello Carol, you are 52''))],
         ZIP_PATH = Some [\<lparr>arcname = U ''prompt_1.txt'', payload = U ''Hello Carol, you are 52'',
                            compress_type = ZIP_STORED\<rparr>]\<rparr>,
      results = Some [(U ''prompt_1.txt'', U ''Hello Carol, you are 52'')]\<rparr>"

text \<open>The files of a listing that seeding takes, and the template names it derives from
  them.\<close>

definition seed_files :: "(ustr \<times> ustr) list \<Rightarrow> (ustr \<times> ustr) list" where
  "seed_files listing = filter (\<lambda>(f, text). endswith f (U ''.txt'')) listing"

definition seed_names :: "(ustr \<times> ustr) list \<Rightarrow> ustr list" where
  "seed_names listing = map (\<lambda>(f, text). template_name f) (seed_files listing)"

text \<open>One step of the sanitizer's comprehension.\<close>

definition clean_step :: "ustr option \<times> cell \<Rightarrow> (ustr \<times> ustr) list \<Rightarrow> (ustr \<times> ustr) list" where
  "clean_step =
     (\<lambda>(k, v) d. case k of None \<Rightarrow> d | Some ks \<Rightarrow> dict_set (clean_key ks) (clean_value v) d)"


section \<open>Properties of the template table\<close>

subsection \<open>Queries and commits\<close>

lemma commit_distinct: "commit rows = Inr rows' \<Longrightarrow> distinct (map name rows')"
  by (auto simp: commit_def split: if_splits)

lemma map_name_set_content: "map name (set_content n c now rows) = map name rows"
  by (induction rows) auto

lemma query_first_None:
  "query_first rows ch = None \<longleftrightarrow> (\<forall>t \<in> set rows. Some (name t) \<noteq> ch)"
  by (auto simp: query_first_def find_None_iff)

lemma query_first_SomeD:
  "query_first rows ch = Some t \<Longrightarrow> t \<in> set rows \<and> Some (name t) = ch"
  by (auto simp: query_first_def find_Some_iff)

lemma distinct_map_remove1: "distinct (map f xs) \<Longrightarrow> distinct (map f (remove1 x xs))"
proof (induction xs)
  case Nil
  show ?case by simp
next
  case (Cons a xs)
  have "set (remove1 x xs) \<subseteq> set xs" by (rule set_remove1_subset)
  with Cons show ?case by auto
qed

subsection \<open>The name derived from a seed file\<close>

text \<open>A file name with one dot, the one of the extension, gives the name before it.\<close>

lemma replace_from_plain:
  "46 \<notin> set base \<Longrightarrow> replace_from (U ''.txt'') [] (base @ U ''.txt'') = base"
proof (induction base)
  case Nil
  show ?case by (simp add: U_def)
next
  case (Cons c base)
  then have "c \<noteq> 46" by auto
  then have "\<not> prefix (U ''.txt'') (c # base @ U ''.txt'')" by (simp add: U_def)
  with Cons show ?case by simp
qed

lemma template_name_plain:
  "46 \<notin> set base \<Longrightarrow>
   endswith (base @ U ''.txt'') (U ''.txt'') \<and> template_name (base @ U ''.txt'') = base"
proof -
  assume a: "46 \<notin> set base"
  have "U ''.txt'' \<noteq> []" by (simp add: U_def)
  with a have "template_name (base @ U ''.txt'') = base"
    by (simp add: template_name_def replace_def replace_from_plain)
  moreover have "endswith (base @ U ''.txt'') (U ''.txt'')"
    by (simp add: endswith_def suffix_def)
  ultimately show ?thesis by simp
qed


text \<open>
  Claim C8: the seeder derives the template name as the file name with the extension
  stripped, the rest of the file name left intact. The code removes every occurrence of
  \<^verbatim>\<open>.txt\<close>, not only the extension: the seed file \<^verbatim>\<open>report.txt.v2.txt\<close>
  passes the filter of line 40 and is named \<^verbatim>\<open>report.v2\<close>, where stripping the
  extension gives \<^verbatim>\<open>report.txt.v2\<close>.
\<close>

theorem template_name_drops_inner_extension:
  "endswith (U ''report.txt.v2.txt'') (U ''.txt'') \<and>
   template_name (U ''report.txt.v2.txt'') = U ''report.v2'' \<and>
   template_name (U ''report.txt.v2.txt'') \<noteq> U ''report.txt.v2''"
  by (simp add: template_name_def replace_def endswith_def suffix_def U_def)

subsection \<open>Seeding\<close>

lemma set_content_sets:
  assumes "n \<in> set (map name rows)" "distinct (map name rows)"
  shows "\<exists>t \<in> set (set_content n c now rows). name t = n \<and> content t = c"
  using assms
proof (induction rows)
  case Nil
  then show ?case by simp
next
  case (Cons r rows)
  show ?case
  proof (cases "name r = n")
    case True
    then show ?thesis by (cases "content r = c") auto
  next
    case False
    with Cons show ?thesis by auto
  qed
qed

lemma set_content_others:
  "t \<in> set rows \<Longrightarrow> name t \<noteq> n \<Longrightarrow> t \<in> set (set_content n c now rows)"
  by (induction rows) auto

lemma query_first_names:
  "n \<in> set (map name rows) \<Longrightarrow> \<exists>t. query_first rows (Some n) = Some t"
  by (cases "query_first rows (Some n)") (auto simp: query_first_None)

lemma seed_loop_upserts:
  assumes "ex \<subseteq> set (map name rows)"
    and "distinct (map name rows)"
    and "distinct (map (\<lambda>(f, text). template_name f) seeds)"
    and "\<forall>(f, text) \<in> set seeds. template_name f \<in> set (map name rows) \<longrightarrow> template_name f \<in> ex"
  shows "\<exists>rows'. seed_loop ex now seeds rows = Inr rows' \<and>
           distinct (map name rows') \<and>
           set (map name rows') = set (map name rows) \<union> set (map (\<lambda>(f, text). template_name f) seeds) \<and>
           (\<forall>(f, text) \<in> set seeds. \<exists>t \<in> set rows'. name t = template_name f \<and> content t = text) \<and>
           (\<forall>t \<in> set rows. name t \<notin> set (map (\<lambda>(f, text). template_name f) seeds) \<longrightarrow> t \<in> set rows')"
  using assms
proof (induction seeds arbitrary: rows)
  case Nil
  then show ?case by simp
next
  case (Cons seed seeds)
  obtain f body where seed: "seed = (f, body)" by (cases seed)
  let ?nm = "template_name f"
  let ?names = "set (map (\<lambda>(f, text). template_name f) seeds)"
  from Cons.prems(3) seed have fresh: "?nm \<notin> ?names" and dist: "distinct (map (\<lambda>(f, text). template_name f) seeds)"
    by auto
  show ?case
  proof (cases "?nm \<in> ex")
    case True
    with Cons.prems(1) have present: "?nm \<in> set (map name rows)" by auto
    from query_first_names [OF present] obtain t0 where q: "query_first rows (Some ?nm) = Some t0" by auto
    let ?rows1 = "set_content ?nm body now rows"
    have names1: "map name ?rows1 = map name rows" by (rule map_name_set_content)
    from set_content_sets [OF present Cons.prems(2)] obtain t1 where
      t1: "t1 \<in> set ?rows1" "name t1 = ?nm" "content t1 = body" by auto
    have p4: "\<forall>(f, text) \<in> set seeds. template_name f \<in> set (map name ?rows1) \<longrightarrow> template_name f \<in> ex"
      using Cons.prems(4) by (auto simp: names1)
    from Cons.IH [of ?rows1] Cons.prems(1,2) dist p4 obtain rows' where
      r: "seed_loop ex now seeds ?rows1 = Inr rows'"
         "distinct (map name rows')"
         "set (map name rows') = set (map name ?rows1) \<union> ?names"
         "\<forall>(f, text) \<in> set seeds. \<exists>t \<in> set rows'. name t = template_name f \<and> content t = text"
         "\<forall>t \<in> set ?rows1. name t \<notin> ?names \<longrightarrow> t \<in> set rows'"
      unfolding names1 by blast
    from r(5) t1 fresh have here: "t1 \<in> set rows'" by auto
    have keep: "\<forall>t \<in> set rows. name t \<notin> set (map (\<lambda>(f, text). template_name f) (seed # seeds)) \<longrightarrow> t \<in> set rows'"
    proof (intro ballI impI)
      fix t assume t: "t \<in> set rows" "name t \<notin> set (map (\<lambda>(f, text). template_name f) (seed # seeds))"
      then have "name t \<noteq> ?nm" "name t \<notin> ?names" by (auto simp: seed)
      with t(1) r(5) set_content_others [of t rows ?nm body now] show "t \<in> set rows'" by auto
    qed
    have step: "seed_loop ex now (seed # seeds) rows = seed_loop ex now seeds ?rows1"
      by (simp add: seed True q Let_def)
    show ?thesis
      unfolding step
    proof (intro exI [of _ rows'] conjI)
      show "seed_loop ex now seeds ?rows1 = Inr rows'" by (rule r(1))
      show "distinct (map name rows')" by (rule r(2))
      show "set (map name rows') = set (map name rows) \<union> set (map (\<lambda>(f, text). template_name f) (seed # seeds))"
        using r(3) present by (auto simp: names1 seed)
      show "\<forall>(f, text) \<in> set (seed # seeds). \<exists>t \<in> set rows'. name t = template_name f \<and> content t = text"
        using r(4) here t1 by (auto simp: seed)
      show "\<forall>t \<in> set rows. name t \<notin> set (map (\<lambda>(f, text). template_name f) (seed # seeds)) \<longrightarrow> t \<in> set rows'"
        by (rule keep)
    qed
  next
    case False
    with Cons.prems(4) have absent: "?nm \<notin> set (map name rows)" by (auto simp: seed)
    let ?new = "new_template rows ?nm body now"
    let ?rows1 = "rows @ [?new]"
    have nn: "name ?new = ?nm" "content ?new = body" by (simp_all add: new_template_def)
    have names1: "map name ?rows1 = map name rows @ [?nm]" by (simp add: nn)
    have d1: "distinct (map name ?rows1)" using Cons.prems(2) absent by (simp add: nn)
    have e1: "ex \<subseteq> set (map name ?rows1)" using Cons.prems(1) by auto
    have p4: "\<forall>(f, text) \<in> set seeds. template_name f \<in> set (map name ?rows1) \<longrightarrow> template_name f \<in> ex"
    proof (intro ballI, clarify)
      fix g tx assume g: "(g, tx) \<in> set seeds" "template_name g \<in> set (map name ?rows1)"
      from g(1) have "template_name g \<in> ?names" by force
      with fresh have "template_name g \<noteq> ?nm" by auto
      with g(2) have "template_name g \<in> set (map name rows)" by (auto simp: nn)
      with Cons.prems(4) g(1) show "template_name g \<in> ex" by auto
    qed
    from Cons.IH [OF e1 d1 dist p4] obtain rows' where
      r: "seed_loop ex now seeds ?rows1 = Inr rows'"
         "distinct (map name rows')"
         "set (map name rows') = set (map name ?rows1) \<union> ?names"
         "\<forall>(f, text) \<in> set seeds. \<exists>t \<in> set rows'. name t = template_name f \<and> content t = text"
         "\<forall>t \<in> set ?rows1. name t \<notin> ?names \<longrightarrow> t \<in> set rows'"
      by blast
    from r(5) fresh nn have here: "?new \<in> set rows'" by auto
    have step: "seed_loop ex now (seed # seeds) rows = seed_loop ex now seeds ?rows1"
      by (simp add: seed False Let_def)
    show ?thesis
      unfolding step
    proof (intro exI [of _ rows'] conjI)
      show "seed_loop ex now seeds ?rows1 = Inr rows'" by (rule r(1))
      show "distinct (map name rows')" by (rule r(2))
      show "set (map name rows') = set (map name rows) \<union> set (map (\<lambda>(f, text). template_name f) (seed # seeds))"
        using r(3) by (auto simp: nn seed)
      show "\<forall>(f, text) \<in> set (seed # seeds). \<exists>t \<in> set rows'. name t = template_name f \<and> content t = text"
        using r(4) here nn by (auto simp: seed)
      show "\<forall>t \<in> set rows. name t \<notin> set (map (\<lambda>(f, text). template_name f) (seed # seeds)) \<longrightarrow> t \<in> set rows'"
        using r(5) by (auto simp: seed)
    qed
  qed
qed

lemma seed_templates_upserts:
  assumes "distinct (map name rows)" and "distinct (seed_names listing)"
  shows "\<exists>rows'. seed_templates now listing rows = Inr rows' \<and>
           distinct (map name rows') \<and>
           set (map name rows') = set (map name rows) \<union> set (seed_names listing) \<and>
           (\<forall>(f, text) \<in> set (seed_files listing).
              \<exists>t \<in> set rows'. name t = template_name f \<and> content t = text) \<and>
           (\<forall>t \<in> set rows. name t \<notin> set (seed_names listing) \<longrightarrow> t \<in> set rows')"
proof -
  have "\<forall>(f, text) \<in> set (seed_files listing).
      template_name f \<in> set (map name rows) \<longrightarrow> template_name f \<in> set (map name rows)"
    by auto
  from seed_loop_upserts [OF subset_refl assms(1) assms(2) [unfolded seed_names_def] this, of now]
  obtain rows' where
    r: "seed_loop (set (map name rows)) now (seed_files listing) rows = Inr rows'"
       "distinct (map name rows')"
       "set (map name rows') = set (map name rows) \<union> set (seed_names listing)"
       "\<forall>(f, text) \<in> set (seed_files listing). \<exists>t \<in> set rows'. name t = template_name f \<and> content t = text"
       "\<forall>t \<in> set rows. name t \<notin> set (seed_names listing) \<longrightarrow> t \<in> set rows'"
    unfolding seed_names_def by blast
  have "seed_templates now listing rows = Inr rows'"
    using r(1,2) by (simp add: seed_templates_def seed_files_def commit_def)
  with r show ?thesis by blast
qed

lemma set_content_same:
  "\<forall>t \<in> set rows. name t = n \<longrightarrow> content t = c \<Longrightarrow> set_content n c now rows = rows"
  by (induction rows) auto

lemma seed_loop_fixed:
  assumes "\<forall>(f, text) \<in> set seeds. template_name f \<in> ex \<and> template_name f \<in> set (map name rows) \<and>
             (\<forall>t \<in> set rows. name t = template_name f \<longrightarrow> content t = text)"
  shows "seed_loop ex now seeds rows = Inr rows"
  using assms
proof (induction seeds)
  case Nil
  show ?case by simp
next
  case (Cons seed seeds)
  obtain f body where seed: "seed = (f, body)" by (cases seed)
  from Cons.prems seed have a: "template_name f \<in> ex" "template_name f \<in> set (map name rows)"
    "\<forall>t \<in> set rows. name t = template_name f \<longrightarrow> content t = body"
    by auto
  from query_first_names [OF a(2)] obtain t0 where q: "query_first rows (Some (template_name f)) = Some t0"
    by auto
  from Cons have "seed_loop ex now seeds rows = Inr rows" by simp
  with a(1) q set_content_same [OF a(3), of now] show ?case
    by (simp add: seed Let_def)
qed

lemma distinct_name_unique:
  "distinct (map name rows) \<Longrightarrow> t \<in> set rows \<Longrightarrow> t' \<in> set rows \<Longrightarrow> name t = name t' \<Longrightarrow> t = t'"
  by (meson distinct_map inj_onD)

text \<open>
  Where the seed files derive distinct template names, seeding does what is expected of
  it: from a table with distinct names two runs in a row end normally, the second with any
  new content of the files; afterwards the names are distinct, every seed file has its
  template with the content the file had at the second run, and a further run over
  unchanged files leaves the table exactly as it is.
\<close>

theorem seeding_twice_distinct_names:
  assumes "distinct (map name rows)"
    and "distinct (seed_names listing1)" and "distinct (seed_names listing2)"
  shows "\<exists>rows1 rows2.
           seed_templates now1 listing1 rows = Inr rows1 \<and>
           seed_templates now2 listing2 rows1 = Inr rows2 \<and>
           seed_templates now2 listing1 rows1 = Inr rows1 \<and>
           distinct (map name rows2) \<and>
           (\<forall>(f, text) \<in> set (seed_files listing2).
              \<exists>t \<in> set rows2. name t = template_name f \<and> content t = text)"
proof -
  from seed_templates_upserts [OF assms(1,2), of now1] obtain rows1 where
    r1: "seed_templates now1 listing1 rows = Inr rows1" "distinct (map name rows1)"
        "set (map name rows1) = set (map name rows) \<union> set (seed_names listing1)"
        "\<forall>(f, text) \<in> set (seed_files listing1). \<exists>t \<in> set rows1. name t = template_name f \<and> content t = text"
    by blast
  from seed_templates_upserts [OF r1(2) assms(3), of now2] obtain rows2 where
    r2: "seed_templates now2 listing2 rows1 = Inr rows2" "distinct (map name rows2)"
        "\<forall>(f, text) \<in> set (seed_files listing2). \<exists>t \<in> set rows2. name t = template_name f \<and> content t = text"
    by blast
  have "\<forall>(f, text) \<in> set (seed_files listing1).
          template_name f \<in> set (map name rows1) \<and> template_name f \<in> set (map name rows1) \<and>
          (\<forall>t \<in> set rows1. name t = template_name f \<longrightarrow> content t = text)"
  proof (intro ballI)
    fix seed assume m: "seed \<in> set (seed_files listing1)"
    obtain f body where seed: "seed = (f, body)" by (cases seed)
    from r1(4) m seed obtain t0 where
      t0: "t0 \<in> set rows1" "name t0 = template_name f" "content t0 = body"
      by auto
    have u: "\<forall>t \<in> set rows1. name t = template_name f \<longrightarrow> content t = body"
      using distinct_name_unique [OF r1(2) _ t0(1)] t0(2,3) by auto
    from t0(1,2) have "template_name f \<in> set (map name rows1)"
      by (metis image_eqI set_map)
    with u show "case seed of (f, text) \<Rightarrow>
          template_name f \<in> set (map name rows1) \<and> template_name f \<in> set (map name rows1) \<and>
          (\<forall>t \<in> set rows1. name t = template_name f \<longrightarrow> content t = text)"
      by (simp add: seed)
  qed
  from seed_loop_fixed [OF this, of now2] r1(2)
  have "seed_templates now2 listing1 rows1 = Inr rows1"
    by (simp add: seed_templates_def seed_files_def commit_def)
  with r1(1) r2 show ?thesis by blast
qed

theorem seeding_twice_distinct_names_witness:
  "distinct (map name example_table) \<and>
   distinct (seed_names [(U ''greeting.txt'', U ''Hello''), (U ''notes.md'', U ''x''), (U ''bye.txt'', U ''Bye'')]) \<and>
   distinct (seed_names [(U ''greeting.txt'', U ''Hi''), (U ''bye.txt'', U ''Ciao'')]) \<and>
   (\<exists>rows1 rows2.
      seed_templates 8 [(U ''greeting.txt'', U ''Hello''), (U ''notes.md'', U ''x''), (U ''bye.txt'', U ''Bye'')]
        example_table = Inr rows1 \<and>
      seed_templates 9 [(U ''greeting.txt'', U ''Hi''), (U ''bye.txt'', U ''Ciao'')] rows1 = Inr rows2 \<and>
      seed_templates 9 [(U ''greeting.txt'', U ''Hello''), (U ''notes.md'', U ''x''), (U ''bye.txt'', U ''Bye'')]
        rows1 = Inr rows1 \<and>
      distinct (map name rows2) \<and>
      (\<forall>(f, text) \<in> set (seed_files [(U ''greeting.txt'', U ''Hi''), (U ''bye.txt'', U ''Ciao'')]).
         \<exists>t \<in> set rows2. name t = template_name f \<and> content t = text)) \<and>
   seed_templates 9 [(U ''greeting.txt'', U ''Hi''), (U ''bye.txt'', U ''Ciao'')]
     [\<lparr>id' = 1, name = U ''greeting'', content = U ''Hello'', created_at = 7, updated_at = 8\<rparr>,
      \<lparr>id' = 2, name = U ''bye'', content = U ''Bye'', created_at = 8, updated_at = 8\<rparr>]
   = Inr [\<lparr>id' = 1, name = U ''greeting'', content = U ''Hi'', created_at = 7, updated_at = 9\<rparr>,
          \<lparr>id' = 2, name = U ''bye'', content = U ''Ciao'', created_at = 8, updated_at = 9\<rparr>]"
proof -
  have a: "distinct (map name example_table)" by (simp add: example_table_def)
  have b: "distinct (seed_names [(U ''greeting.txt'', U ''Hello''), (U ''notes.md'', U ''x''), (U ''bye.txt'', U ''Bye'')])"
    by (simp add: seed_names_def seed_files_def endswith_def suffix_def template_name_def replace_def U_def)
  have c: "distinct (seed_names [(U ''greeting.txt'', U ''Hi''), (U ''bye.txt'', U ''Ciao'')])"
    by (simp add: seed_names_def seed_files_def endswith_def suffix_def template_name_def replace_def U_def)
  have d: "seed_templates 9 [(U ''greeting.txt'', U ''Hi''), (U ''bye.txt'', U ''Ciao'')]
     [\<lparr>id' = 1, name = U ''greeting'', content = U ''Hello'', created_at = 7, updated_at = 8\<rparr>,
      \<lparr>id' = 2, name = U ''bye'', content = U ''Bye'', created_at = 8, updated_at = 8\<rparr>]
   = Inr [\<lparr>id' = 1, name = U ''greeting'', content = U ''Hi'', created_at = 7, updated_at = 9\<rparr>,
          \<lparr>id' = 2, name = U ''bye'', content = U ''Ciao'', created_at = 8, updated_at = 9\<rparr>]"
    by (simp add: seed_templates_def endswith_def suffix_def template_name_def replace_def
        commit_def query_first_def U_def)
  from seeding_twice_distinct_names [OF a b c, of 8 9] a b c d show ?thesis by blast
qed


text \<open>
  Claim C2: seeding leaves exactly one stored template per distinct seed file name,
  holding the file's text. Two distinct file names can derive one template name
  (\<^verbatim>\<open>a.txt\<close> and \<^verbatim>\<open>a.txt.txt\<close> both give \<^verbatim>\<open>a\<close>). Over an empty table
  both are inserted and the commit fails, so the start-up ends with no template stored;
  over a table that holds \<^verbatim>\<open>a\<close> both overwrite the one row, and the text of the
  first file is stored nowhere.
\<close>

theorem seeding_colliding_file_names:
  "seed_templates 1 [(U ''a.txt'', U ''first''), (U ''a.txt.txt'', U ''second'')] []
     = Inl IntegrityError \<and>
   seed_templates 2 [(U ''a.txt'', U ''first''), (U ''a.txt.txt'', U ''second'')]
       [\<lparr>id' = 1, name = U ''a'', content = U ''old'', created_at = 0, updated_at = 0\<rparr>]
     = Inr [\<lparr>id' = 1, name = U ''a'', content = U ''second'', created_at = 0, updated_at = 2\<rparr>]"
  by (simp add: seed_templates_def endswith_def suffix_def U_def template_name_def replace_def
      commit_def new_template_def next_id_def query_first_def)

subsection \<open>Create with a name already present\<close>

text \<open>
  Claim C3, as amended: when Save is pressed with a name already present in the table
  and both the name and the content are non-empty, the handler shows the duplicate-name
  error and returns the table as it was (no row altered, none inserted); when the name
  or the content is empty it shows nothing and returns the table as it was.
\<close>

theorem create_existing_name:
  assumes "new_name \<in> set (map name rows)"
  shows "create_mode rows True new_name new_content now =
     (if new_name \<noteq> [] \<and> new_content \<noteq> []
      then Inr (rows, Some (StError ''Template with this name already exists.''))
      else Inr (rows, None))"
  using assms by (auto simp: create_mode_def query_first_None split: option.splits)

theorem create_existing_name_witness:
  "create_mode
     [\<lparr>id' = 1, name = U ''greeting'', content = U ''Hello'', created_at = 7, updated_at = 7\<rparr>]
     True (U ''greeting'') (U ''Bye'') 9
   = Inr ([\<lparr>id' = 1, name = U ''greeting'', content = U ''Hello'', created_at = 7, updated_at = 7\<rparr>],
          Some (StError ''Template with this name already exists.''))"
  using create_existing_name
    [of "U ''greeting''"
        "[\<lparr>id' = 1, name = U ''greeting'', content = U ''Hello'', created_at = 7, updated_at = 7\<rparr>]"
        "U ''Bye''" 9]
  by (simp add: U_def)

text \<open>
  The claim as stated fails where the guard of line 89 does: Save pressed with the name
  of a stored template and an empty content shows no error at all.
\<close>

theorem create_blank_content_counterexample:
  "U ''greeting'' \<in> set (map name
     [\<lparr>id' = 1, name = U ''greeting'', content = U ''Hello'', created_at = 7, updated_at = 7\<rparr>]) \<and>
   shown (create_mode
     [\<lparr>id' = 1, name = U ''greeting'', content = U ''Hello'', created_at = 7, updated_at = 7\<rparr>]
     True (U ''greeting'') [] 9) = None"
  by (simp add: create_mode_def shown_def U_def)

text \<open>With a name that is not present and both fields non-empty, Save inserts exactly one
  template with that name and content.\<close>

theorem create_new_name:
  assumes "distinct (map name rows)" and "new_name \<notin> set (map name rows)"
    and "new_name \<noteq> []" and "new_content \<noteq> []"
  shows "create_mode rows True new_name new_content now =
           Inr (rows @ [new_template rows new_name new_content now], Some (StSuccess ''Template saved.'')) \<and>
         filter (\<lambda>t. name t = new_name) (rows @ [new_template rows new_name new_content now]) =
           [new_template rows new_name new_content now] \<and>
         content (new_template rows new_name new_content now) = new_content"
proof -
  from assms(2) have q: "query_first rows (Some new_name) = None"
    by (auto simp: query_first_None)
  from assms(2) have f: "filter (\<lambda>t. name t = new_name) rows = []"
    by (auto simp: filter_empty_conv)
  from assms q f show ?thesis
    by (simp add: create_mode_def commit_def new_template_def)
qed

theorem create_new_name_witness:
  "distinct (map name example_table) \<and> U ''bye'' \<notin> set (map name example_table) \<and>
   create_mode example_table True (U ''bye'') (U ''Bye {{ Name }}'') 9 =
     Inr (example_table @ [\<lparr>id' = 2, name = U ''bye'', content = U ''Bye {{ Name }}'', created_at = 9, updated_at = 9\<rparr>],
          Some (StSuccess ''Template saved.''))"
proof -
  have a: "distinct (map name example_table)" "U ''bye'' \<notin> set (map name example_table)"
    "U ''bye'' \<noteq> []" "U ''Bye {{ Name }}'' \<noteq> []"
    by (simp_all add: example_table_def U_def)
  have n: "new_template example_table (U ''bye'') (U ''Bye {{ Name }}'') 9 =
      \<lparr>id' = 2, name = U ''bye'', content = U ''Bye {{ Name }}'', created_at = 9, updated_at = 9\<rparr>"
    by (simp add: new_template_def next_id_def example_table_def)
  from create_new_name [OF a, of 9] a n show ?thesis by simp
qed


subsection \<open>Update and delete with a name not present\<close>

text \<open>
  Claim C4, as amended: for every table and every choice that names no stored template,
  Delete reports nothing and returns the table as it was, and Edit leaves the table as it
  was. No handler reports a not-found error.
\<close>

theorem missing_name_leaves_table:
  assumes "\<forall>t \<in> set rows. Some (name t) \<noteq> choice"
  shows "delete_mode rows choice pressed = Inr (rows, None) \<and>
         table_after rows (edit_mode rows choice edited_content update now) = rows"
  using assms
  by (auto simp: delete_mode_def edit_mode_def table_after_def query_first_None [symmetric]
      split: option.splits)

theorem missing_name_leaves_table_witness:
  "delete_mode
     [\<lparr>id' = 1, name = U ''greeting'', content = U ''Hello'', created_at = 7, updated_at = 7\<rparr>]
     (Some (U ''ghost'')) True
   = Inr ([\<lparr>id' = 1, name = U ''greeting'', content = U ''Hello'', created_at = 7, updated_at = 7\<rparr>],
          None) \<and>
   table_after
     [\<lparr>id' = 1, name = U ''greeting'', content = U ''Hello'', created_at = 7, updated_at = 7\<rparr>]
     (edit_mode
        [\<lparr>id' = 1, name = U ''greeting'', content = U ''Hello'', created_at = 7, updated_at = 7\<rparr>]
        (Some (U ''ghost'')) (U ''Bye'') True 9)
   = [\<lparr>id' = 1, name = U ''greeting'', content = U ''Hello'', created_at = 7, updated_at = 7\<rparr>]"
  using missing_name_leaves_table
    [of "[\<lparr>id' = 1, name = U ''greeting'', content = U ''Hello'', created_at = 7, updated_at = 7\<rparr>]"
        "Some (U ''ghost'')" True "U ''Bye''" True 9]
  by (simp add: U_def)

text \<open>
  The claim as stated fails for Delete: pressed over an empty table (the select box
  returned nothing), or with a name that no row has, the handler ends normally and shows
  nothing.
\<close>

theorem delete_missing_counterexample:
  "delete_mode [] None True = Inr ([], None) \<and>
   shown (delete_mode
     [\<lparr>id' = 1, name = U ''greeting'', content = U ''Hello'', created_at = 7, updated_at = 7\<rparr>]
     (Some (U ''ghost'')) True) = None"
  by (simp add: delete_mode_def query_first_def shown_def U_def)

subsection \<open>Unique names\<close>

lemma seed_templates_distinct:
  "seed_templates now listing rows = Inr rows' \<Longrightarrow> distinct (map name rows')"
  by (auto simp: seed_templates_def Let_def split: sum.splits dest: commit_distinct)

lemma create_mode_distinct:
  "distinct (map name rows) \<Longrightarrow> create_mode rows save n c now = Inr (rows', s) \<Longrightarrow>
   distinct (map name rows')"
  by (auto simp: create_mode_def split: if_splits option.splits sum.splits dest: commit_distinct)

lemma edit_mode_distinct:
  "distinct (map name rows) \<Longrightarrow> edit_mode rows ch c u now = Inr (rows', s) \<Longrightarrow>
   distinct (map name rows')"
  by (auto simp: edit_mode_def split: if_splits option.splits sum.splits dest: commit_distinct)

lemma delete_mode_distinct:
  "distinct (map name rows) \<Longrightarrow> delete_mode rows ch d = Inr (rows', s) \<Longrightarrow>
   distinct (map name rows')"
  by (auto simp: delete_mode_def split: if_splits option.splits sum.splits dest: commit_distinct)

text \<open>
  The three modes keep the names distinct by what they do, not by the constraint: from a
  table with distinct names none of them ends in IntegrityError.
\<close>

lemma create_mode_commits:
  "distinct (map name rows) \<Longrightarrow> \<exists>rows' s. create_mode rows save n c now = Inr (rows', s)"
  by (auto simp: create_mode_def commit_def query_first_None new_template_def
      split: option.splits)

lemma edit_mode_no_integrity_error:
  "distinct (map name rows) \<Longrightarrow> edit_mode rows ch c u now \<noteq> Inl IntegrityError"
  by (auto simp: edit_mode_def commit_def map_name_set_content split: option.splits)

lemma delete_mode_commits:
  "distinct (map name rows) \<Longrightarrow> \<exists>rows' s. delete_mode rows ch d = Inr (rows', s)"
  by (auto simp: delete_mode_def commit_def distinct_map_remove1 split: option.splits)

text \<open>
  Claim C6: in every reachable state of the table no two templates share a name; seeding,
  create, update and delete preserve this.
\<close>

theorem name_unique:
  "reachable rows \<Longrightarrow> distinct (map name rows)"
proof (induction rule: reachable.induct)
  case created
  show ?case by simp
next
  case (seeded rows now listing rows')
  then show ?case by (auto dest: seed_templates_distinct)
next
  case (create rows save new_name new_content now rows' ntc)
  then show ?case by (auto dest: create_mode_distinct)
next
  case (edit rows edit_choice edited_content update now rows' ntc)
  then show ?case by (auto dest: edit_mode_distinct)
next
  case (delete rows delete_choice del rows' ntc)
  then show ?case by (auto dest: delete_mode_distinct)
qed

theorem name_unique_witness:
  "reachable [\<lparr>id' = 1, name = U ''greeting'', content = U ''Hello'', created_at = 7, updated_at = 7\<rparr>]
   \<and> distinct (map name
       [\<lparr>id' = 1, name = U ''greeting'', content = U ''Hello'', created_at = 7, updated_at = 7\<rparr>])"
proof -
  have "seed_templates 7 [(U ''greeting.txt'', U ''Hello'')] [] =
      Inr [\<lparr>id' = 1, name = U ''greeting'', content = U ''Hello'', created_at = 7, updated_at = 7\<rparr>]"
    by (simp add: seed_templates_def endswith_def U_def suffix_def template_name_def
        replace_def commit_def new_template_def next_id_def)
  then have r: "reachable
      [\<lparr>id' = 1, name = U ''greeting'', content = U ''Hello'', created_at = 7, updated_at = 7\<rparr>]"
    by (rule reachable.seeded [OF reachable.created])
  from name_unique [OF r] r show ?thesis by simp
qed

section \<open>Properties of the row sanitizer\<close>

lemma replace_from_removes: "c \<notin> set (replace_from [c] [] s)"
  by (induction s) auto

lemma clean_key_no_mark: "65279 \<notin> set (clean_key k)"
  by (simp add: clean_key_def replace_def replace_from_removes)

lemma dropWhile_rev_last:
  assumes "dropWhile P (rev a) \<noteq> []"
  shows "last (dropWhile P (rev a)) = hd a"
proof -
  from assms have "a \<noteq> []" by auto
  have "suffix (dropWhile P (rev a)) (rev a)" by (rule suffix_dropWhile)
  then obtain p where "rev a = p @ dropWhile P (rev a)" by (auto simp: suffix_def)
  with assms have "last (rev a) = last (dropWhile P (rev a))" by (metis last_appendR)
  with \<open>a \<noteq> []\<close> show ?thesis by (simp add: last_rev)
qed

lemma strip_edges:
  "strip s = [] \<or> (\<not> isspace (hd (strip s)) \<and> \<not> isspace (last (strip s)))"
proof (cases "strip s = []")
  case True
  then show ?thesis by simp
next
  case False
  let ?a = "dropWhile isspace s"
  let ?b = "dropWhile isspace (rev ?a)"
  from False have b: "?b \<noteq> []" by (simp add: strip_def)
  have a: "?a \<noteq> []"
  proof
    assume e: "?a = []"
    have "?b = []" unfolding e by simp
    with b show False by simp
  qed
  have "\<not> isspace (hd ?b)" using b by (rule hd_dropWhile)
  then have l: "\<not> isspace (last (strip s))" using b by (simp add: strip_def last_rev)
  have "\<not> isspace (hd ?a)" using a by (rule hd_dropWhile)
  with dropWhile_rev_last [OF b] have "\<not> isspace (last ?b)" by simp
  then have "\<not> isspace (hd (strip s))" using b by (simp add: strip_def hd_rev)
  with l show ?thesis by simp
qed

lemma clean_value_edges:
  "clean_value v = [] \<or> (\<not> isspace (hd (clean_value v)) \<and> \<not> isspace (last (clean_value v)))"
  by (cases v) (simp_all add: clean_value_def strip_edges)

lemma set_dict_set: "set (dict_set k v d) \<subseteq> insert (k, v) (set d)"
  by (induction d) (auto split: if_splits)

lemma keys_dict_set: "fst ` set (dict_set k v d) = insert k (fst ` set d)"
proof (induction d)
  case Nil
  show ?case by simp
next
  case (Cons e d)
  obtain k' v' where e: "e = (k', v')" by (cases e)
  show ?case
  proof (cases "k' = k")
    case True
    then show ?thesis by (simp add: e)
  next
    case False
    with Cons show ?thesis by (simp add: e insert_commute)
  qed
qed

lemma distinct_dict_set: "distinct (map fst d) \<Longrightarrow> distinct (map fst (dict_set k v d))"
proof (induction d)
  case Nil
  show ?case by simp
next
  case (Cons e d)
  obtain k' v' where e: "e = (k', v')" by (cases e)
  from Cons have ih: "distinct (map fst (dict_set k v d))" by simp
  show ?case
  proof (cases "k' = k")
    case True
    with Cons.prems show ?thesis by (simp add: e)
  next
    case False
    from Cons.prems have "k' \<notin> fst ` set d" by (simp add: e)
    with False have "k' \<notin> fst ` set (dict_set k v d)" by (simp add: keys_dict_set)
    with False ih show ?thesis by (simp add: e)
  qed
qed

lemma fold_clean_step:
  "distinct (map fst d) \<Longrightarrow>
   distinct (map fst (fold clean_step row d)) \<and>
   set (fold clean_step row d) \<subseteq> set d \<union> {(clean_key ks, clean_value c) | ks c. (Some ks, c) \<in> set row} \<and>
   fst ` set (fold clean_step row d) = fst ` set d \<union> clean_key ` {ks. \<exists>c. (Some ks, c) \<in> set row}"
proof (induction row arbitrary: d)
  case Nil
  then show ?case by simp
next
  case (Cons item row)
  obtain k v where item: "item = (k, v)" by (cases item)
  show ?case
  proof (cases k)
    case None
    with Cons item show ?thesis by (auto simp: clean_step_def)
  next
    case (Some ks)
    let ?d = "dict_set (clean_key ks) (clean_value v) d"
    have s: "fold clean_step (item # row) d = fold clean_step row ?d"
      by (simp add: clean_step_def item Some)
    have m: "(Some ks, v) \<in> set (item # row)" by (simp add: item Some)
    from Cons.prems have "distinct (map fst ?d)" by (rule distinct_dict_set)
    from Cons.IH [OF this] have
      ih: "distinct (map fst (fold clean_step row ?d))"
          "set (fold clean_step row ?d) \<subseteq> set ?d \<union> {(clean_key ks, clean_value c) | ks c. (Some ks, c) \<in> set row}"
          "fst ` set (fold clean_step row ?d) = fst ` set ?d \<union> clean_key ` {ks. \<exists>c. (Some ks, c) \<in> set row}"
      by auto
    have 1: "distinct (map fst (fold clean_step (item # row) d))" using ih(1) by (simp only: s)
    have 2: "set (fold clean_step (item # row) d) \<subseteq>
        set d \<union> {(clean_key ks, clean_value c) | ks c. (Some ks, c) \<in> set (item # row)}"
    proof
      fix e assume "e \<in> set (fold clean_step (item # row) d)"
      with ih(2) have "e \<in> set ?d \<or> e \<in> {(clean_key ks, clean_value c) | ks c. (Some ks, c) \<in> set row}"
        unfolding s by auto
      then show "e \<in> set d \<union> {(clean_key ks, clean_value c) | ks c. (Some ks, c) \<in> set (item # row)}"
      proof
        assume "e \<in> set ?d"
        with set_dict_set [of "clean_key ks" "clean_value v" d]
        have "e = (clean_key ks, clean_value v) \<or> e \<in> set d" by auto
        with m show ?thesis by blast
      next
        assume "e \<in> {(clean_key ks, clean_value c) | ks c. (Some ks, c) \<in> set row}"
        then show ?thesis by auto
      qed
    qed
    have 3: "fst ` set (fold clean_step (item # row) d) =
        fst ` set d \<union> clean_key ` {ks. \<exists>c. (Some ks, c) \<in> set (item # row)}"
    proof -
      have "{ks. \<exists>c. (Some ks, c) \<in> set (item # row)} = insert ks {ks. \<exists>c. (Some ks, c) \<in> set row}"
        by (auto simp: item Some)
      then show ?thesis
        unfolding s ih(3) keys_dict_set by auto
    qed
    from 1 2 3 show ?thesis by simp
  qed
qed

lemma clean_row_fold: "clean_row row = fold clean_step row []"
  by (simp add: clean_row_def clean_step_def)

text \<open>
  What holds of every record: the result has each cleaned key once, its keys are the
  cleaned string keys of the record (a key that is not a string is dropped), no key holds
  a byte-order mark, every value is empty or has no white space at either end, and every
  item is the cleaned key and the cleaned value of an item of the record. On the record
  of the specification the result is the expected one.
\<close>

theorem clean_row_sanitizes:
  "distinct (map fst (clean_row row)) \<and>
   fst ` set (clean_row row) = clean_key ` {ks. \<exists>c. (Some ks, c) \<in> set row} \<and>
   list_all (\<lambda>(k, v). 65279 \<notin> set k \<and> (v = [] \<or> (\<not> isspace (hd v) \<and> \<not> isspace (last v))))
     (clean_row row) \<and>
   set (clean_row row) \<subseteq> {(clean_key ks, clean_value c) | ks c. (Some ks, c) \<in> set row} \<and>
   clean_row [(Some ([32] @ U ''Name'' @ [65279, 32]), Str (U '' Alice ''))] = [(U ''Name'', U ''Alice'')]"
proof -
  have f: "distinct (map fst (clean_row row))"
    "set (clean_row row) \<subseteq> {(clean_key ks, clean_value c) | ks c. (Some ks, c) \<in> set row}"
    "fst ` set (clean_row row) = clean_key ` {ks. \<exists>c. (Some ks, c) \<in> set row}"
    using fold_clean_step [of "[]" row] by (simp_all add: clean_row_fold)
  have "list_all (\<lambda>(k, v). 65279 \<notin> set k \<and> (v = [] \<or> (\<not> isspace (hd v) \<and> \<not> isspace (last v))))
     (clean_row row)"
    unfolding list_all_iff
  proof (intro ballI)
    fix e assume "e \<in> set (clean_row row)"
    with f(2) obtain ks c where "e = (clean_key ks, clean_value c)" by auto
    then show "case e of (k, v) \<Rightarrow> 65279 \<notin> set k \<and> (v = [] \<or> (\<not> isspace (hd v) \<and> \<not> isspace (last v)))"
      using clean_key_no_mark [of ks] clean_value_edges [of c] by auto
  qed
  moreover have "clean_row [(Some ([32] @ U ''Name'' @ [65279, 32]), Str (U '' Alice ''))] = [(U ''Name'', U ''Alice'')]"
    by (simp add: clean_row_def clean_key_def clean_value_def strip_def isspace_def replace_def U_def)
  ultimately show ?thesis using f by simp
qed

text \<open>
  Claim C5: the sanitizer returns a mapping in which every key has its leading and
  trailing white space and every byte-order mark removed. The code strips first and
  removes the marks afterwards, so white space that stood behind a mark at the start of a
  key (or before one at its end) stays. A data file that starts with two marks and a
  space gives such a key: the codec drops the first mark, and the header
  \<^verbatim>\<open>Name\<close> is cleaned to \<^verbatim>\<open>Name\<close> with a leading space.
\<close>

theorem clean_row_space_behind_mark:
  "map clean_row (DictReader (fst (csv_reader (file_lines
      ([65279, 65279, 32] @ U ''Name,Age'' @ [10] @ U ''Alice,30'' @ [10])))))
     = [[(32 # U ''Name'', U ''Alice''), (U ''Age'', U ''30'')]] \<and>
   clean_row [(Some ([65279, 32] @ U ''Name''), Str (U ''Alice''))] = [(32 # U ''Name'', U ''Alice'')] \<and>
   isspace 32"
  by (simp add: clean_row_def clean_key_def clean_value_def strip_def isspace_def replace_def U_def
      DictReader_def csv_reader_def file_lines_def decode_utf8_sig_def parse_reset_def
      parse_process_char_def start_field_def end_of_line_def parse_save_field_def parse_add_char_def then_state_def field_limit_def 
      is_newline_def dict_row_def dict_def)

section \<open>Properties of the archiver\<close>

text \<open>
  Claim C9, as amended: for every state of the output directory the archiver writes one
  ZIP archive that has, in the directory's order, one entry for each entry of the
  directory and no other: a file under its bare name with its content, a subdirectory as
  an empty entry under its name and a slash (what it holds is not packed). Every entry is
  stored without compression. The archive takes the place of any previous one, and the
  directories are left as they were.
\<close>

theorem zip_output_packs_directory:
  "\<exists>entries. ZIP_PATH (zip_output fs) = Some entries \<and>
     map arcname entries = map entry_name (OUTPUT_DIR fs) \<and>
     map payload entries = map entry_payload (OUTPUT_DIR fs) \<and>
     map compress_type entries = replicate (length (OUTPUT_DIR fs)) ZIP_STORED \<and>
     zip_output (fs\<lparr>ZIP_PATH := previous\<rparr>) = zip_output fs \<and>
     OUTPUT_DIR (zip_output fs) = OUTPUT_DIR fs \<and> DATA_DIR (zip_output fs) = DATA_DIR fs"
proof -
  let ?w = "\<lambda>(file, nd). zipf_write ZIP_STORED (os_path_join (U ''generated_prompts'') file) (Some file) nd"
  have n: "arcname (?w e) = entry_name e" for e
    by (cases e) (simp add: zipf_write_def entry_name_def split: node.splits)
  have p: "payload (?w e) = entry_payload e" for e
    by (cases e) (simp add: zipf_write_def entry_payload_def split: node.splits)
  have c: "compress_type (?w e) = ZIP_STORED" for e
    by (cases e) (simp add: zipf_write_def split: node.splits)
  have "map compress_type (map ?w d) = replicate (length d) ZIP_STORED" for d
    by (induction d) (simp_all add: c)
  then show ?thesis
    by (simp add: zip_output_def n p comp_def)
qed

text \<open>
  The claim as stated speaks of a compressed archive. The archive of a directory with one
  file holds that file stored, not deflated.
\<close>

theorem zip_output_stores_counterexample:
  "ZIP_PATH (zip_output
      \<lparr>DATA_DIR = [], OUTPUT_DIR = [(U ''prompt_1.txt'', File (U ''Hello''))], ZIP_PATH = None\<rparr>)
    = Some [\<lparr>arcname = U ''prompt_1.txt'', payload = U ''Hello'', compress_type = ZIP_STORED\<rparr>] \<and>
   ZIP_STORED \<noteq> ZIP_DEFLATED"
  by (simp add: zip_output_def zipf_write_def)

section \<open>Properties of the renderer\<close>

subsection \<open>File names\<close>

lemma digits_value_snoc: "digits_value (ds @ [c]) = 10 * digits_value ds + (c - 48)"
  by (simp add: digits_value_def)

lemma digits_value_str_nat: "digits_value (str_nat n) = n"
proof (induction n rule: str_nat.induct)
  case (1 n)
  show ?case
  proof (cases "n < 10")
    case True
    then show ?thesis by (simp add: str_nat.simps [of n] digits_value_def)
  next
    case False
    with 1 have "digits_value (str_nat (n div 10)) = n div 10" by simp
    with False show ?thesis
      by (simp add: str_nat.simps [of n] digits_value_snoc)
  qed
qed

lemma str_nat_inj: "str_nat m = str_nat n \<Longrightarrow> m = n"
  by (metis digits_value_str_nat)

lemma prompt_filename_inj: "prompt_filename m = prompt_filename n \<longleftrightarrow> m = n"
  by (auto simp: prompt_filename_def dest: str_nat_inj)

lemma map_of_written_None:
  "filename \<notin> fst ` set prompts \<Longrightarrow> map_of (written prompts) filename = None"
  by (induction prompts) (auto simp: written_def)

lemma dict_set_fresh: "k \<notin> fst ` set d \<Longrightarrow> dict_set k v d = d @ [(k, v)]"
  by (induction d) auto

lemma open_write_written:
  assumes "filename \<notin> fst ` set prompts"
  shows "open_write (written prompts) filename result = Inr (written (prompts @ [(filename, result)]))"
proof -
  from assms have "filename \<notin> fst ` set (written prompts)"
    by (force simp: written_def)
  then have d: "dict_set filename (File result) (written prompts) = written prompts @ [(filename, File result)]"
    by (rule dict_set_fresh)
  have w: "written (prompts @ [(filename, result)]) = written prompts @ [(filename, File result)]"
    by (simp add: written_def)
  from map_of_written_None [OF assms] show ?thesis
    by (simp add: open_write_def d w)
qed

lemma render_rows_written:
  assumes "map fst prompts = map prompt_filename [1..<idx]" and "0 < idx"
  shows "\<exists>ps. fst (render_rows render template_str idx rows (written prompts) prompts) = written ps \<and>
              map fst ps = map prompt_filename [1..<Suc (length ps)] \<and>
              length ps \<le> length prompts + length rows \<and>
              (case snd (render_rows render template_str idx rows (written prompts) prompts) of
                 Inr res \<Rightarrow> res = ps \<and> length ps = length prompts + length rows
               | Inl e \<Rightarrow> True)"
  using assms
proof (induction rows arbitrary: idx prompts)
  case Nil
  from Nil.prems have "length prompts = idx - 1"
    by (metis length_map length_upt)
  with Nil.prems show ?case
    by (intro exI [of _ prompts]) (auto simp: Suc_diff_1)
next
  case (Cons row rows)
  from Cons.prems have len: "length prompts = idx - 1"
    by (metis length_map length_upt)
  show ?case
  proof (cases "render template_str (clean_row row)")
    case (Inl e)
    with Cons.prems len show ?thesis
      by (intro exI [of _ prompts]) (auto simp: Suc_diff_1)
  next
    case (Inr result)
    let ?f = "U ''prompt_'' @ str_nat idx @ U ''.txt''"
    have f: "?f = prompt_filename idx" by (simp add: prompt_filename_def)
    have fresh: "prompt_filename idx \<notin> fst ` set prompts"
    proof
      assume "prompt_filename idx \<in> fst ` set prompts"
      then have "prompt_filename idx \<in> set (map fst prompts)" by simp
      with Cons.prems have "prompt_filename idx \<in> prompt_filename ` {1..<idx}" by simp
      then show False by (auto simp: prompt_filename_inj)
    qed
    have next_names: "map fst (prompts @ [(prompt_filename idx, result)]) = map prompt_filename [1..<Suc idx]"
      using Cons.prems by simp
    from Cons.IH [OF next_names] obtain ps where
      ps: "fst (render_rows render template_str (Suc idx) rows
              (written (prompts @ [(prompt_filename idx, result)])) (prompts @ [(prompt_filename idx, result)])) = written ps"
        "map fst ps = map prompt_filename [1..<Suc (length ps)]"
        "length ps \<le> length (prompts @ [(prompt_filename idx, result)]) + length rows"
        "(case snd (render_rows render template_str (Suc idx) rows
              (written (prompts @ [(prompt_filename idx, result)])) (prompts @ [(prompt_filename idx, result)])) of
            Inr res \<Rightarrow> res = ps \<and> length ps = length (prompts @ [(prompt_filename idx, result)]) + length rows
          | Inl e \<Rightarrow> True)"
      by auto
    have step: "render_rows render template_str idx (row # rows) (written prompts) prompts =
        render_rows render template_str (Suc idx) rows
              (written (prompts @ [(prompt_filename idx, result)])) (prompts @ [(prompt_filename idx, result)])"
      using Inr open_write_written [OF fresh, of result] by (simp add: f Let_def)
    show ?thesis
      unfolding step using ps by (intro exI [of _ ps]) (auto split: sum.splits)
  qed
qed

lemma map_of_dict_set: "map_of (dict_set k v d) k = Some v"
  by (induction d) auto

lemma open_read_after_write:
  "open_write d n c = Inr d' \<Longrightarrow> open_read d' n = Inr c"
  by (auto simp: open_write_def open_read_def map_of_dict_set split: option.splits node.splits)

lemma render_prompts_from_empty:
  assumes "OUTPUT_DIR fs = []"
  shows "\<exists>ps. fst (render_prompts render template_str csv_path fs) = fs\<lparr>OUTPUT_DIR := written ps\<rparr> \<and>
              map fst ps = map prompt_filename [1..<Suc (length ps)] \<and>
              (case snd (render_prompts render template_str csv_path fs) of
                 Inr res \<Rightarrow> res = ps
               | Inl e \<Rightarrow> True)"
proof (cases "open_read (DATA_DIR fs) csv_path")
  case (Inl e)
  from assms have "fs\<lparr>OUTPUT_DIR := []\<rparr> = fs" by (cases fs) simp
  with Inl show ?thesis
    by (intro exI [of _ "[]"]) (simp add: render_prompts_def written_def)
next
  case (Inr raw)
  obtain recs failure where cr: "csv_reader (file_lines raw) = (recs, failure)"
    by (cases "csv_reader (file_lines raw)")
  have "map fst ([] :: (ustr \<times> ustr) list) = map prompt_filename [1..<1]" by simp
  from render_rows_written [OF this, of render template_str "DictReader recs"]
  obtain ps where ps:
    "fst (render_rows render template_str 1 (DictReader recs) (written []) []) = written ps"
    "map fst ps = map prompt_filename [1..<Suc (length ps)]"
    "(case snd (render_rows render template_str 1 (DictReader recs) (written []) []) of
        Inr res \<Rightarrow> res = ps \<and> length ps = length ([] :: (ustr \<times> ustr) list) + length (DictReader recs)
      | Inl e \<Rightarrow> True)"
    by auto
  have w: "written [] = []" by (simp add: written_def)
  obtain out r where rr: "render_rows render template_str 1 (DictReader recs) [] [] = (out, r)"
    by (cases "render_rows render template_str 1 (DictReader recs) [] []")
  from ps rr w show ?thesis
    by (intro exI [of _ ps])
       (auto simp: render_prompts_def Inr cr assms split: sum.splits option.splits)
qed

lemma zip_output_written:
  "OUTPUT_DIR fs = written ps \<Longrightarrow> ZIP_PATH (zip_output fs) = Some (archive_of ps)"
  by (simp add: zip_output_def written_def archive_of_def zipf_write_def split_def)

section \<open>Properties of the reader\<close>

subsection \<open>Lines\<close>

lemma universal_newlines_no_cr: "13 \<notin> set (universal_newlines s)"
  by (induction s rule: universal_newlines.induct) auto

lemma universal_newlines_id: "13 \<notin> set s \<Longrightarrow> universal_newlines s = s"
  by (induction s rule: universal_newlines.induct) auto

lemma length_universal_newlines: "length (universal_newlines s) \<le> length s"
  by (induction s rule: universal_newlines.induct) auto

lemma length_decode_utf8_sig: "length (decode_utf8_sig s) \<le> length s"
  by (simp add: decode_utf8_sig_def split: list.splits)

lemma lines_from_text_line:
  "10 \<notin> set cur \<Longrightarrow> 13 \<notin> set cur \<Longrightarrow> 13 \<notin> set s \<Longrightarrow> l \<in> set (lines_from cur s) \<Longrightarrow> text_line l"
proof (induction s arbitrary: cur)
  case Nil
  then show ?case
    by (auto simp: text_line_def dest: in_set_butlastD split: if_splits)
next
  case (Cons c s)
  show ?case
  proof (cases "c = 10")
    case True
    with Cons.prems have "l = cur @ [10] \<or> l \<in> set (lines_from [] s)" by simp
    then show ?thesis
    proof
      assume "l = cur @ [10]"
      with Cons.prems show ?thesis by (simp add: text_line_def)
    next
      assume "l \<in> set (lines_from [] s)"
      with Cons.IH [of "[]"] Cons.prems show ?thesis by simp
    qed
  next
    case False
    with Cons.prems have "l \<in> set (lines_from (cur @ [c]) s)" by simp
    with Cons.IH [of "cur @ [c]"] Cons.prems False show ?thesis by simp
  qed
qed

lemma file_lines_text_line: "l \<in> set (file_lines raw) \<Longrightarrow> text_line l"
  unfolding file_lines_def
  by (rule lines_from_text_line [of "[]"]) (simp_all add: universal_newlines_no_cr)

lemma lines_from_size: "sum_list (map length (lines_from cur s)) = length cur + length s"
  by (induction s arbitrary: cur) auto

lemma file_lines_size: "sum_list (map length (file_lines raw)) \<le> length raw"
proof -
  have "sum_list (map length (file_lines raw)) = length (universal_newlines (decode_utf8_sig raw))"
    by (simp add: file_lines_def lines_from_size)
  also have "\<dots> \<le> length (decode_utf8_sig raw)" by (rule length_universal_newlines)
  also have "\<dots> \<le> length raw" by (rule length_decode_utf8_sig)
  finally show ?thesis .
qed

lemma lines_from_one_line: "10 \<notin> set h \<Longrightarrow> lines_from cur (h @ [10]) = [cur @ h @ [10]]"
  by (induction h arbitrary: cur) auto

subsection \<open>One character, one line\<close>

lemma parse_add_char_cases:
  "parse_add_char r c = Inl CsvError \<and> field_limit \<le> length (field r) \<or>
   parse_add_char r c = Inr (r\<lparr>field := field r @ [c]\<rparr>) \<and> length (field r) < field_limit"
  by (simp add: parse_add_char_def)

lemma process_char_error: "parse_process_char r c = Inl e \<Longrightarrow> e = CsvError"
  by (cases "state r"; cases c)
     (auto simp: parse_process_char_def start_field_def then_state_def parse_add_char_def
        split: if_splits)

lemma process_line_error: "process_line r l = Inl e \<Longrightarrow> e = CsvError"
  by (induction l arbitrary: r) (auto dest: process_char_error split: sum.splits)

text \<open>A character that is not a line end, met outside the state EAT\_CRNL: the state
  stays outside it and the field grows by one character at most; with room in the field
  the character is accepted.\<close>

lemma process_char_plain:
  assumes "parse_process_char r (Some c) = Inr r'" "state r \<noteq> EAT_CRNL" "c \<noteq> 10" "c \<noteq> 13"
  shows "state r' \<noteq> EAT_CRNL \<and> length (field r') \<le> Suc (length (field r))"
  using assms
  by (cases "state r")
     (auto simp: parse_process_char_def start_field_def then_state_def is_newline_def
        parse_save_field_def parse_add_char_def split: if_splits)

lemma process_char_accepted:
  assumes "state r \<noteq> EAT_CRNL" "length (field r) < field_limit"
  shows "\<exists>r'. parse_process_char r (Some c) = Inr r' \<and> length (field r') \<le> Suc (length (field r))"
  using assms
  by (cases "state r")
     (auto simp: parse_process_char_def start_field_def then_state_def is_newline_def
        parse_save_field_def end_of_line_def parse_add_char_def)

lemma process_end_of_line:
  "\<exists>r'. parse_process_char r None = Inr r' \<and> length (field r') \<le> length (field r) \<and>
        (state r' = START_RECORD \<or> state r' = IN_QUOTED_FIELD)"
  by (cases "state r")
     (auto simp: parse_process_char_def start_field_def is_newline_def parse_save_field_def
        end_of_line_def)

text \<open>A line of text, begun outside the state EAT\_CRNL, ends a record or leaves a quoted
  field open.\<close>

lemma process_line_text_line:
  assumes "process_line r l = Inr r'" "text_line l" "state r \<noteq> EAT_CRNL"
  shows "state r' = START_RECORD \<or> state r' = IN_QUOTED_FIELD"
  using assms
proof (induction l arbitrary: r)
  case Nil
  with process_end_of_line [of r] show ?case by auto
next
  case (Cons c cs)
  from Cons.prems(1) obtain r1 where
    r1: "parse_process_char r (Some c) = Inr r1" "process_line r1 cs = Inr r'"
    by (auto split: sum.splits)
  show ?case
  proof (cases "cs = []")
    case True
    with r1(2) process_end_of_line [of r1] show ?thesis by auto
  next
    case False
    with Cons.prems(2) have c: "c \<noteq> 10" "c \<noteq> 13" and t: "text_line cs"
      by (auto simp: text_line_def)
    from process_char_plain [OF r1(1) Cons.prems(3) c] have "state r1 \<noteq> EAT_CRNL" by simp
    from Cons.IH [OF r1(2) t this] show ?thesis .
  qed
qed

text \<open>With room for all its characters, the line is accepted.\<close>

lemma process_line_accepted:
  assumes "text_line l" "state r \<noteq> EAT_CRNL" "length (field r) + length l \<le> field_limit"
  shows "\<exists>r'. process_line r l = Inr r' \<and> length (field r') \<le> length (field r) + length l"
  using assms
proof (induction l arbitrary: r)
  case Nil
  with process_end_of_line [of r] show ?case by auto
next
  case (Cons c cs)
  from Cons.prems(3) have room: "length (field r) < field_limit" by simp
  from process_char_accepted [OF Cons.prems(2) room, of c] obtain r1 where
    r1: "parse_process_char r (Some c) = Inr r1" "length (field r1) \<le> Suc (length (field r))"
    by auto
  show ?case
  proof (cases "cs = []")
    case True
    from process_end_of_line [of r1] obtain r2 where
      "parse_process_char r1 None = Inr r2" "length (field r2) \<le> length (field r1)" by auto
    with r1 True show ?thesis by simp
  next
    case False
    with Cons.prems(1) have c: "c \<noteq> 10" "c \<noteq> 13" and t: "text_line cs"
      by (auto simp: text_line_def)
    from process_char_plain [OF r1(1) Cons.prems(2) c] have s1: "state r1 \<noteq> EAT_CRNL" by simp
    from r1(2) Cons.prems(3) have "length (field r1) + length cs \<le> field_limit" by simp
    from Cons.IH [OF t s1 this] obtain r' where
      "process_line r1 cs = Inr r'" "length (field r') \<le> length (field r1) + length cs" by auto
    with r1 show ?thesis by simp
  qed
qed

subsection \<open>Records\<close>

lemma reader_records_error: "snd (reader_records r ls) = Some e \<Longrightarrow> e = CsvError"
proof (induction ls arbitrary: r)
  case Nil
  then show ?case by (simp split: if_splits)
next
  case (Cons l ls)
  show ?case
  proof (cases "process_line r l")
    case (Inl e')
    with Cons.prems process_line_error [OF Inl] show ?thesis by simp
  next
    case (Inr r')
    show ?thesis
    proof (cases "state r' = START_RECORD")
      case True
      with Cons.prems Inr have "snd (reader_records parse_reset ls) = Some e"
        by (cases "reader_records parse_reset ls") simp
      then show ?thesis by (rule Cons.IH)
    next
      case False
      with Cons.prems Inr have "snd (reader_records r' ls) = Some e" by simp
      then show ?thesis by (rule Cons.IH)
    qed
  qed
qed

text \<open>A file of no more characters than a field may have is read without an error.\<close>

lemma reader_records_accepted:
  assumes "\<forall>l \<in> set ls. text_line l" "state r \<noteq> EAT_CRNL"
    and "length (field r) + sum_list (map length ls) \<le> field_limit"
  shows "snd (reader_records r ls) = None"
  using assms
proof (induction ls arbitrary: r)
  case Nil
  show ?case by simp
next
  case (Cons l ls)
  from Cons.prems have t: "text_line l" and ts: "\<forall>l \<in> set ls. text_line l"
    and room: "length (field r) + length l \<le> field_limit"
    by simp_all
  from process_line_accepted [OF t Cons.prems(2) room] obtain r' where
    r': "process_line r l = Inr r'" "length (field r') \<le> length (field r) + length l" by auto
  show ?case
  proof (cases "state r' = START_RECORD")
    case True
    have "state parse_reset \<noteq> EAT_CRNL" by (simp add: parse_reset_def)
    moreover from Cons.prems(3)
    have "length (field parse_reset) + sum_list (map length ls) \<le> field_limit"
      by (simp add: parse_reset_def)
    ultimately have "snd (reader_records parse_reset ls) = None"
      using ts by (intro Cons.IH)
    then obtain recs where "reader_records parse_reset ls = (recs, None)"
      by (cases "reader_records parse_reset ls") simp
    with r' True show ?thesis by simp
  next
    case False
    with process_line_text_line [OF r'(1) t Cons.prems(2)] have s: "state r' \<noteq> EAT_CRNL" by auto
    from r'(2) Cons.prems(3) have "length (field r') + sum_list (map length ls) \<le> field_limit"
      by simp
    from Cons.IH [OF ts s this] r' False show ?thesis by simp
  qed
qed

lemma small_file_accepted:
  assumes "length raw \<le> field_limit"
  shows "snd (csv_reader (file_lines raw)) = None"
proof -
  have "\<forall>l \<in> set (file_lines raw). text_line l" by (auto dest: file_lines_text_line)
  moreover have "state parse_reset \<noteq> EAT_CRNL" by (simp add: parse_reset_def)
  moreover from file_lines_size [of raw] assms
  have "length (field parse_reset) + sum_list (map length (file_lines raw)) \<le> field_limit"
    by (simp add: parse_reset_def)
  ultimately show ?thesis
    unfolding csv_reader_def by (rule reader_records_accepted)
qed

subsection \<open>A header row only\<close>

lemma process_blank_line: "process_line parse_reset [10] = Inr parse_reset"
  by (simp add: parse_process_char_def parse_reset_def is_newline_def)

lemma blank_lines_fresh:
  "list_all (\<lambda>l. l = [10]) ls \<Longrightarrow>
   reader_records parse_reset ls = (replicate (length ls) [], None)"
proof (induction ls)
  case Nil
  show ?case by (simp add: parse_reset_def)
next
  case (Cons l ls)
  then have l: "l = [10]" and rest: "reader_records parse_reset ls = (replicate (length ls) [], None)"
    by simp_all
  show ?case
    unfolding l reader_records.simps process_blank_line
    by (simp add: rest) (simp add: parse_reset_def)
qed

lemma process_blank_line_quoted:
  assumes "state r = IN_QUOTED_FIELD"
  shows "process_line r [10] = Inl CsvError \<or>
         (\<exists>r'. process_line r [10] = Inr r' \<and> state r' = IN_QUOTED_FIELD)"
  using assms parse_add_char_cases [of r 10]
  by (auto simp: parse_process_char_def)

lemma blank_lines_quoted:
  "list_all (\<lambda>l. l = [10]) ls \<Longrightarrow> state r = IN_QUOTED_FIELD \<Longrightarrow>
   DictReader (fst (reader_records r ls)) = []"
proof (induction ls arbitrary: r)
  case Nil
  then show ?case by (simp add: DictReader_def)
next
  case (Cons l ls)
  then have l: "l = [10]" and rest: "list_all (\<lambda>l. l = [10]) ls" by simp_all
  from process_blank_line_quoted [OF Cons.prems(2)] show ?case
  proof
    assume "process_line r [10] = Inl CsvError"
    then show ?thesis unfolding l by (simp add: DictReader_def)
  next
    assume "\<exists>r'. process_line r [10] = Inr r' \<and> state r' = IN_QUOTED_FIELD"
    then obtain r' where r': "process_line r [10] = Inr r'" "state r' = IN_QUOTED_FIELD" by auto
    from Cons.IH [OF rest r'(2)] r' show ?thesis unfolding l by simp
  qed
qed

lemma DictReader_blank: "DictReader (header # replicate n []) = []"
  by (simp add: DictReader_def)

text \<open>A file with a header row only has no data row, whether or not the reader ends in
  an error.\<close>

lemma header_only_no_rows:
  assumes "header_only raw"
  shows "DictReader (fst (csv_reader (file_lines raw))) = []"
proof (cases "file_lines raw")
  case Nil
  then show ?thesis by (simp add: csv_reader_def parse_reset_def DictReader_def)
next
  case (Cons l ls)
  with assms have blank: "list_all (\<lambda>l. l = [10]) ls" by (simp add: header_only_def)
  have t: "text_line l" by (rule file_lines_text_line [of _ raw]) (simp add: Cons)
  show ?thesis
  proof (cases "process_line parse_reset l")
    case (Inl e)
    then show ?thesis by (simp add: csv_reader_def Cons DictReader_def)
  next
    case (Inr r')
    have "state parse_reset \<noteq> EAT_CRNL" by (simp add: parse_reset_def)
    from process_line_text_line [OF Inr t this]
    have st: "state r' = START_RECORD \<or> state r' = IN_QUOTED_FIELD" .
    show ?thesis
    proof (cases "state r' = START_RECORD")
      case True
      with Inr blank_lines_fresh [OF blank] show ?thesis
        by (simp add: csv_reader_def Cons DictReader_blank)
    next
      case False
      with st have q: "state r' = IN_QUOTED_FIELD" by simp
      from blank_lines_quoted [OF blank q] Inr q show ?thesis
        by (simp add: csv_reader_def Cons)
    qed
  qed
qed

subsection \<open>A header beyond the field size limit\<close>

lemma long_field_fails:
  assumes "state r = IN_FIELD" "length (field r) \<le> field_limit" "field_limit < length (field r) + n"
  shows "process_line r (replicate n 65 @ rest) = Inl CsvError"
  using assms
proof (induction n arbitrary: r)
  case 0
  then show ?case by simp
next
  case (Suc n)
  show ?case
  proof (cases "field_limit \<le> length (field r)")
    case True
    with Suc.prems(1) show ?thesis
      by (simp add: parse_process_char_def parse_add_char_def is_newline_def)
  next
    case False
    let ?r1 = "r\<lparr>field := field r @ [65]\<rparr>"
    from False Suc.prems(1) have step: "parse_process_char r (Some 65) = Inr ?r1"
      by (simp add: parse_process_char_def parse_add_char_def is_newline_def)
    from False Suc.prems have "state ?r1 = IN_FIELD" "length (field ?r1) \<le> field_limit"
      "field_limit < length (field ?r1) + n"
      by simp_all
    from Suc.IH [OF this] step show ?thesis by simp
  qed
qed

lemma long_header_line:
  "process_line parse_reset (replicate (Suc field_limit) 65 @ [10]) = Inl CsvError"
proof -
  let ?r1 = "\<lparr>state = IN_FIELD, field = [65], fields' = []\<rparr>"
  have "parse_process_char parse_reset (Some 65) = Inr ?r1"
    by (simp add: parse_process_char_def start_field_def parse_add_char_def then_state_def
        is_newline_def parse_reset_def field_limit_def)
  moreover have "process_line ?r1 (replicate field_limit 65 @ [10]) = Inl CsvError"
    by (rule long_field_fails) (simp_all add: field_limit_def)
  ultimately show ?thesis by simp
qed

lemma long_header_lines:
  "file_lines (replicate (Suc field_limit) 65 @ [10]) = [replicate (Suc field_limit) 65 @ [10]]"
proof -
  have d: "decode_utf8_sig (replicate (Suc field_limit) 65 @ [10]) = replicate (Suc field_limit) 65 @ [10]"
    by (simp add: decode_utf8_sig_def)
  have "13 \<notin> set (replicate (Suc field_limit) (65::nat) @ [10])" by simp
  then have u: "universal_newlines (replicate (Suc field_limit) 65 @ [10]) = replicate (Suc field_limit) 65 @ [10]"
    by (rule universal_newlines_id)
  have "10 \<notin> set (replicate (Suc field_limit) (65::nat))" by simp
  from lines_from_one_line [OF this, of "[]"] d u show ?thesis
    by (simp only: file_lines_def append_Nil)
qed

lemma long_header_reader:
  "csv_reader (file_lines (replicate (Suc field_limit) 65 @ [10])) = ([], Some CsvError)"
  by (simp only: long_header_lines csv_reader_def reader_records.simps long_header_line sum.case)

section \<open>Properties of the generation action\<close>

subsection \<open>Successive runs\<close>

text \<open>What one enabled run of the action leaves, from any state.\<close>

lemma generation_output:
  assumes "query_first rows selected = Some t"
    and "generate_prompts render rows selected (Some upload) True st = (st', err)"
  shows "\<exists>ps. map fst ps = map prompt_filename [1..<Suc (length ps)] \<and>
              OUTPUT_DIR (files st') = written ps \<and>
              (case err of
                 None \<Rightarrow>
                   results st' = Some ps \<and>
                   ZIP_PATH (files st') = Some (archive_of ps) \<and>
                   DATA_DIR (files st') =
                     dict_set (U ''uploaded.csv'') (File upload) (DATA_DIR (files st))
               | Some e \<Rightarrow>
                   results st' = results st \<and>
                   ZIP_PATH (files st') = ZIP_PATH (files st) \<and>
                   (if map_of (DATA_DIR (files st)) (U ''uploaded.csv'') = Some Dir
                    then ps = [] \<and> e = IsADirectoryError \<and>
                         DATA_DIR (files st') = DATA_DIR (files st)
                    else DATA_DIR (files st') =
                           dict_set (U ''uploaded.csv'') (File upload) (DATA_DIR (files st))))"
proof (cases "map_of (DATA_DIR (files st)) (U ''uploaded.csv'') = Some Dir")
  case True
  then have "open_write (DATA_DIR (files st)) (U ''uploaded.csv'') upload = Inl IsADirectoryError"
    by (simp add: open_write_def)
  with assms True show ?thesis
    by (intro exI [of _ "[]"]) (auto simp: generate_prompts_def written_def)
next
  case False
  let ?data = "dict_set (U ''uploaded.csv'') (File upload) (DATA_DIR (files st))"
  let ?fs = "(files st)\<lparr>OUTPUT_DIR := [], DATA_DIR := ?data\<rparr>"
  from False have w: "open_write (DATA_DIR (files st)) (U ''uploaded.csv'') upload = Inr ?data"
    by (auto simp: open_write_def split: option.splits node.splits)
  have "OUTPUT_DIR ?fs = []" by simp
  from render_prompts_from_empty [OF this, of render "content t" "U ''uploaded.csv''"]
  obtain ps where ps:
    "fst (render_prompts render (content t) (U ''uploaded.csv'') ?fs) = ?fs\<lparr>OUTPUT_DIR := written ps\<rparr>"
    "map fst ps = map prompt_filename [1..<Suc (length ps)]"
    "(case snd (render_prompts render (content t) (U ''uploaded.csv'') ?fs) of
        Inr res \<Rightarrow> res = ps | Inl e \<Rightarrow> True)"
    by auto
  obtain fs2 r where rp: "render_prompts render (content t) (U ''uploaded.csv'') ?fs = (fs2, r)"
    by (cases "render_prompts render (content t) (U ''uploaded.csv'') ?fs")
  with ps(1) have fs2: "fs2 = ?fs\<lparr>OUTPUT_DIR := written ps\<rparr>" by simp
  have z: "ZIP_PATH (zip_output fs2) = Some (archive_of ps)"
    by (rule zip_output_written) (simp add: fs2)
  have zo: "OUTPUT_DIR (zip_output fs2) = written ps" "DATA_DIR (zip_output fs2) = ?data"
    by (simp_all add: zip_output_def fs2)
  show ?thesis
  proof (cases r)
    case (Inl e)
    with assms w rp have "st' = st\<lparr>files := fs2\<rparr>" "err = Some e"
      by (simp_all add: generate_prompts_def)
    with ps(2) False show ?thesis
      by (intro exI [of _ ps]) (simp add: fs2)
  next
    case (Inr res)
    with ps(3) rp have "res = ps" by simp
    with Inr assms w rp have "st' = \<lparr>files = zip_output fs2, results = Some ps\<rparr>" "err = None"
      by (simp_all add: generate_prompts_def)
    with ps(2) z zo show ?thesis
      by (intro exI [of _ ps]) simp
  qed
qed

text \<open>
  Claim C7: of two successive generation runs, the second, when enabled (a template is
  selected, a file uploaded, the button pressed), leaves in the output directory exactly
  the files it produced, \<^verbatim>\<open>prompt_1.txt\<close> up to the last one it wrote, in place
  of whatever the first run left. When it ends normally, these are the files of the
  result sequence it stored, the uploaded file has been persisted as
  \<^verbatim>\<open>uploaded.csv\<close>, and the archive holds exactly these files. When it ends in an
  error, the stored results and the archive are those the first run left, and the
  upload has been persisted unless writing it was the error. What the first run left in
  the output directory has no effect: the second run leaves the same directory as it
  does from the state with the directory emptied.
\<close>

theorem second_run_leaves_only_its_files:
  assumes "query_first rows2 selected2 = Some t"
    and "generate_prompts render1 rows1 selected1 csv1 pressed1 st = (st1, err1)"
    and "generate_prompts render2 rows2 selected2 (Some upload2) True st1 = (st2, err2)"
  shows "(\<exists>ps. map fst ps = map prompt_filename [1..<Suc (length ps)] \<and>
               OUTPUT_DIR (files st2) = written ps \<and>
               (case err2 of
                  None \<Rightarrow>
                    results st2 = Some ps \<and>
                    ZIP_PATH (files st2) = Some (archive_of ps) \<and>
                    DATA_DIR (files st2) =
                      dict_set (U ''uploaded.csv'') (File upload2) (DATA_DIR (files st1))
                | Some e \<Rightarrow>
                    results st2 = results st1 \<and>
                    ZIP_PATH (files st2) = ZIP_PATH (files st1) \<and>
                    (if map_of (DATA_DIR (files st1)) (U ''uploaded.csv'') = Some Dir
                     then ps = [] \<and> e = IsADirectoryError \<and>
                          DATA_DIR (files st2) = DATA_DIR (files st1)
                     else DATA_DIR (files st2) =
                            dict_set (U ''uploaded.csv'') (File upload2) (DATA_DIR (files st1))))) \<and>
         OUTPUT_DIR (files st2) =
           OUTPUT_DIR (files (fst (generate_prompts render2 rows2 selected2 (Some upload2) True
             (st1\<lparr>files := (files st1)\<lparr>OUTPUT_DIR := []\<rparr>\<rparr>))))"
proof
  show "\<exists>ps. map fst ps = map prompt_filename [1..<Suc (length ps)] \<and>
               OUTPUT_DIR (files st2) = written ps \<and>
               (case err2 of
                  None \<Rightarrow>
                    results st2 = Some ps \<and>
                    ZIP_PATH (files st2) = Some (archive_of ps) \<and>
                    DATA_DIR (files st2) =
                      dict_set (U ''uploaded.csv'') (File upload2) (DATA_DIR (files st1))
                | Some e \<Rightarrow>
                    results st2 = results st1 \<and>
                    ZIP_PATH (files st2) = ZIP_PATH (files st1) \<and>
                    (if map_of (DATA_DIR (files st1)) (U ''uploaded.csv'') = Some Dir
                     then ps = [] \<and> e = IsADirectoryError \<and>
                          DATA_DIR (files st2) = DATA_DIR (files st1)
                     else DATA_DIR (files st2) =
                            dict_set (U ''uploaded.csv'') (File upload2) (DATA_DIR (files st1))))"
    using assms(1,3) by (rule generation_output)
next
  have "OUTPUT_DIR (files (fst (generate_prompts render2 rows2 selected2 (Some upload2) True st1))) =
        OUTPUT_DIR (files (fst (generate_prompts render2 rows2 selected2 (Some upload2) True
          (st1\<lparr>files := (files st1)\<lparr>OUTPUT_DIR := []\<rparr>\<rparr>))))"
    using assms(1)
    by (simp add: generate_prompts_def Let_def split: sum.splits prod.splits)
  with assms(3) show "OUTPUT_DIR (files st2) =
           OUTPUT_DIR (files (fst (generate_prompts render2 rows2 selected2 (Some upload2) True
             (st1\<lparr>files := (files st1)\<lparr>OUTPUT_DIR := []\<rparr>\<rparr>))))"
    by simp
qed

lemmas evaluation =
  generate_prompts_def query_first_def open_write_def open_read_def render_prompts_def
  csv_reader_def file_lines_def decode_utf8_sig_def parse_reset_def parse_process_char_def
  start_field_def end_of_line_def parse_save_field_def parse_add_char_def then_state_def field_limit_def is_newline_def
  DictReader_def dict_row_def dict_def clean_row_def clean_key_def clean_value_def strip_def
  isspace_def replace_def covered_only_def jinja_fragment_def lookup_name_def reserved_words_def
  ident_start_def ident_char_def zip_output_def zipf_write_def os_path_join_def
  example_table_def fresh_state_def U_def Let_def

lemma str_nat_small: "str_nat (Suc 0) = [49]" "str_nat (Suc (Suc 0)) = [50]" "str_nat 1 = [49]"
  by (simp_all add: str_nat.simps)

theorem second_run_leaves_only_its_files_witness:
  "query_first example_table (Some (U ''greeting'')) = Some (hd example_table) \<and>
   generate_prompts covered_only example_table (Some (U ''greeting'')) (Some first_upload) True
     fresh_state = (after_first_run, None) \<and>
   generate_prompts covered_only example_table (Some (U ''greeting'')) (Some second_upload) True
     after_first_run = (after_second_run, None) \<and>
   (\<exists>ps. map fst ps = map prompt_filename [1..<Suc (length ps)] \<and>
         OUTPUT_DIR (files after_second_run) = written ps \<and>
         results after_second_run = Some ps \<and>
         ZIP_PATH (files after_second_run) = Some (archive_of ps) \<and>
         DATA_DIR (files after_second_run) =
           dict_set (U ''uploaded.csv'') (File second_upload) (DATA_DIR (files after_first_run)))"
proof -
  have q: "query_first example_table (Some (U ''greeting'')) = Some (hd example_table)"
    by (simp add: query_first_def example_table_def)
  have first_run: "generate_prompts covered_only example_table (Some (U ''greeting''))
      (Some first_upload) True fresh_state = (after_first_run, None)"
    by (simp add: evaluation first_upload_def after_first_run_def str_nat_small)
  have second_run: "generate_prompts covered_only example_table (Some (U ''greeting''))
      (Some second_upload) True after_first_run = (after_second_run, None)"
    by (simp add: evaluation second_upload_def after_first_run_def after_second_run_def
        str_nat_small)
  note second_run_leaves_only_its_files [OF q first_run second_run, THEN conjunct1,
      unfolded option.case]
  then have "\<exists>ps. map fst ps = map prompt_filename [1..<Suc (length ps)] \<and>
         OUTPUT_DIR (files after_second_run) = written ps \<and>
         results after_second_run = Some ps \<and>
         ZIP_PATH (files after_second_run) = Some (archive_of ps) \<and>
         DATA_DIR (files after_second_run) =
           dict_set (U ''uploaded.csv'') (File second_upload) (DATA_DIR (files after_first_run))"
    .
  with q first_run second_run show ?thesis by blast
qed

subsection \<open>The sample of the specification\<close>

lemma sample_uploads_rows:
  assumes "upload \<in> set sample_uploads"
  shows "csv_reader (file_lines upload) = ([[U ''Name'', U ''Age''], [U ''Alice'', U ''30'']], None)"
  using assms
  by (auto simp: sample_uploads_def csv_reader_def file_lines_def decode_utf8_sig_def
      parse_reset_def parse_process_char_def start_field_def end_of_line_def
      parse_save_field_def parse_add_char_def then_state_def field_limit_def is_newline_def U_def)

lemma sample_row_clean:
  "map clean_row (DictReader [[U ''Name'', U ''Age''], [U ''Alice'', U ''30'']])
     = [[(U ''Name'', U ''Alice''), (U ''Age'', U ''30'')]]"
  by (simp add: DictReader_def dict_row_def dict_def clean_row_def clean_key_def clean_value_def
      strip_def isspace_def replace_def U_def)

lemma sample_template_covered:
  "jinja_fragment (U ''Hello {{ Name }}, you are {{ Age }}'')
     [(U ''Name'', U ''Alice''), (U ''Age'', U ''30'')] = Some (U ''Hello Alice, you are 30'')"
  by (simp add: jinja_fragment_def lookup_name_def reserved_words_def ident_start_def
      ident_char_def U_def)

lemma agrees_with_jinja_covered_only: "agrees_with_jinja covered_only"
  by (simp add: agrees_with_jinja_def covered_only_def)

lemma sample_render:
  assumes "agrees_with_jinja render" "upload \<in> set sample_uploads"
    "open_read (DATA_DIR fs) csv_path = Inr upload" "OUTPUT_DIR fs = []"
  shows "render_prompts render (U ''Hello {{ Name }}, you are {{ Age }}'') csv_path fs =
     (fs\<lparr>OUTPUT_DIR := [(U ''prompt_1.txt'', File (U ''Hello Alice, you are 30''))]\<rparr>,
      Inr [(U ''prompt_1.txt'', U ''Hello Alice, you are 30'')])"
proof -
  from assms(1) sample_template_covered
  have r: "render (U ''Hello {{ Name }}, you are {{ Age }}'')
      [(U ''Name'', U ''Alice''), (U ''Age'', U ''30'')] = Inr (U ''Hello Alice, you are 30'')"
    by (simp add: agrees_with_jinja_def)
  have c: "clean_row (dict_row [U ''Name'', U ''Age''] [U ''Alice'', U ''30''])
      = [(U ''Name'', U ''Alice''), (U ''Age'', U ''30'')]"
    using sample_row_clean by (simp add: DictReader_def)
  have d: "DictReader [[U ''Name'', U ''Age''], [U ''Alice'', U ''30'']]
      = [dict_row [U ''Name'', U ''Age''] [U ''Alice'', U ''30'']]"
    by (simp add: DictReader_def U_def)
  have n: "U ''prompt_'' @ str_nat (Suc 0) @ U ''.txt'' = U ''prompt_1.txt''"
    by (simp add: str_nat.simps U_def)
  show ?thesis
    by (simp add: render_prompts_def assms(3,4) sample_uploads_rows [OF assms(2)] d c r n
        open_write_def Let_def)
qed

text \<open>
  Claim C1: the template \<^verbatim>\<open>Hello {{ Name }}, you are {{ Age }}\<close> and a data file
  with the header \<^verbatim>\<open>Name,Age\<close> and the one row \<^verbatim>\<open>Alice,30\<close> give exactly one
  output entry, \<^verbatim>\<open>prompt_1.txt\<close> with the text \<^verbatim>\<open>Hello Alice, you are 30\<close>, and
  an archive with exactly that entry. This holds for the renderer followed by the
  archiver on an empty output directory, and for the generation action from every state,
  with every engine that does on plain placeholders what Jinja2 does.
\<close>

theorem end_to_end_sample:
  assumes "agrees_with_jinja render" and "upload \<in> set sample_uploads"
  shows "(open_read (DATA_DIR fs) csv_path = Inr upload \<and> OUTPUT_DIR fs = [] \<longrightarrow>
            render_prompts render (U ''Hello {{ Name }}, you are {{ Age }}'') csv_path fs =
              (fs\<lparr>OUTPUT_DIR := [(U ''prompt_1.txt'', File (U ''Hello Alice, you are 30''))]\<rparr>,
               Inr [(U ''prompt_1.txt'', U ''Hello Alice, you are 30'')]) \<and>
            ZIP_PATH (zip_output (fst
              (render_prompts render (U ''Hello {{ Name }}, you are {{ Age }}'') csv_path fs))) =
              Some [\<lparr>arcname = U ''prompt_1.txt'', payload = U ''Hello Alice, you are 30'',
                     compress_type = ZIP_STORED\<rparr>]) \<and>
         (query_first rows selected = Some t \<and>
          content t = U ''Hello {{ Name }}, you are {{ Age }}'' \<and>
          map_of (DATA_DIR (files st)) (U ''uploaded.csv'') \<noteq> Some Dir \<longrightarrow>
            generate_prompts render rows selected (Some upload) True st =
              (\<lparr>files =
                  \<lparr>DATA_DIR = dict_set (U ''uploaded.csv'') (File upload) (DATA_DIR (files st)),
                   OUTPUT_DIR = [(U ''prompt_1.txt'', File (U ''Hello Alice, you are 30''))],
                   ZIP_PATH = Some [\<lparr>arcname = U ''prompt_1.txt'',
                     payload = U ''Hello Alice, you are 30'', compress_type = ZIP_STORED\<rparr>]\<rparr>,
                results = Some [(U ''prompt_1.txt'', U ''Hello Alice, you are 30'')]\<rparr>, None))"
proof (intro conjI impI)
  assume a: "open_read (DATA_DIR fs) csv_path = Inr upload \<and> OUTPUT_DIR fs = []"
  then show "render_prompts render (U ''Hello {{ Name }}, you are {{ Age }}'') csv_path fs =
              (fs\<lparr>OUTPUT_DIR := [(U ''prompt_1.txt'', File (U ''Hello Alice, you are 30''))]\<rparr>,
               Inr [(U ''prompt_1.txt'', U ''Hello Alice, you are 30'')])"
    using sample_render [OF assms] by simp
  with a show "ZIP_PATH (zip_output (fst
              (render_prompts render (U ''Hello {{ Name }}, you are {{ Age }}'') csv_path fs))) =
              Some [\<lparr>arcname = U ''prompt_1.txt'', payload = U ''Hello Alice, you are 30'',
                     compress_type = ZIP_STORED\<rparr>]"
    by (simp add: zip_output_def zipf_write_def)
next
  assume a: "query_first rows selected = Some t \<and>
          content t = U ''Hello {{ Name }}, you are {{ Age }}'' \<and>
          map_of (DATA_DIR (files st)) (U ''uploaded.csv'') \<noteq> Some Dir"
  let ?data = "dict_set (U ''uploaded.csv'') (File upload) (DATA_DIR (files st))"
  let ?fs = "(files st)\<lparr>OUTPUT_DIR := [], DATA_DIR := ?data\<rparr>"
  from a have w: "open_write (DATA_DIR (files st)) (U ''uploaded.csv'') upload = Inr ?data"
    by (auto simp: open_write_def split: option.splits node.splits)
  have rd: "open_read (DATA_DIR ?fs) (U ''uploaded.csv'') = Inr upload"
    using open_read_after_write [OF w] by simp
  have "OUTPUT_DIR ?fs = []" by simp
  from sample_render [OF assms rd this] a w
  show "generate_prompts render rows selected (Some upload) True st =
              (\<lparr>files =
                  \<lparr>DATA_DIR = dict_set (U ''uploaded.csv'') (File upload) (DATA_DIR (files st)),
                   OUTPUT_DIR = [(U ''prompt_1.txt'', File (U ''Hello Alice, you are 30''))],
                   ZIP_PATH = Some [\<lparr>arcname = U ''prompt_1.txt'',
                     payload = U ''Hello Alice, you are 30'', compress_type = ZIP_STORED\<rparr>]\<rparr>,
                results = Some [(U ''prompt_1.txt'', U ''Hello Alice, you are 30'')]\<rparr>, None)"
    by (simp add: generate_prompts_def zip_output_def zipf_write_def)
qed

theorem end_to_end_sample_witness:
  "agrees_with_jinja covered_only \<and>
   U ''Name,Age'' @ [10] @ U ''Alice,30'' @ [10] \<in> set sample_uploads \<and>
   generate_prompts covered_only example_table (Some (U ''greeting''))
       (Some (U ''Name,Age'' @ [10] @ U ''Alice,30'' @ [10])) True fresh_state =
     (\<lparr>files =
         \<lparr>DATA_DIR = [(U ''uploaded.csv'', File (U ''Name,Age'' @ [10] @ U ''Alice,30'' @ [10]))],
          OUTPUT_DIR = [(U ''prompt_1.txt'', File (U ''Hello Alice, you are 30''))],
          ZIP_PATH = Some [\<lparr>arcname = U ''prompt_1.txt'',
            payload = U ''Hello Alice, you are 30'', compress_type = ZIP_STORED\<rparr>]\<rparr>,
       results = Some [(U ''prompt_1.txt'', U ''Hello Alice, you are 30'')]\<rparr>, None)"
proof -
  have m: "U ''Name,Age'' @ [10] @ U ''Alice,30'' @ [10] \<in> set sample_uploads"
    by (simp add: sample_uploads_def)
  have q: "query_first example_table (Some (U ''greeting'')) = Some (hd example_table) \<and>
      content (hd example_table) = U ''Hello {{ Name }}, you are {{ Age }}'' \<and>
      map_of (DATA_DIR (files fresh_state)) (U ''uploaded.csv'') \<noteq> Some Dir"
    by (simp add: query_first_def example_table_def fresh_state_def)
  from end_to_end_sample [OF agrees_with_jinja_covered_only m] q
  have "generate_prompts covered_only example_table (Some (U ''greeting''))
       (Some (U ''Name,Age'' @ [10] @ U ''Alice,30'' @ [10])) True fresh_state =
     (\<lparr>files =
         \<lparr>DATA_DIR = dict_set (U ''uploaded.csv'')
            (File (U ''Name,Age'' @ [10] @ U ''Alice,30'' @ [10])) (DATA_DIR (files fresh_state)),
          OUTPUT_DIR = [(U ''prompt_1.txt'', File (U ''Hello Alice, you are 30''))],
          ZIP_PATH = Some [\<lparr>arcname = U ''prompt_1.txt'',
            payload = U ''Hello Alice, you are 30'', compress_type = ZIP_STORED\<rparr>]\<rparr>,
       results = Some [(U ''prompt_1.txt'', U ''Hello Alice, you are 30'')]\<rparr>, None)"
    by blast
  with agrees_with_jinja_covered_only m show ?thesis
    by (simp add: fresh_state_def)
qed

subsection \<open>A data file with a header row only\<close>

text \<open>
  Claim C10, as amended: for every data file that consists of a header row only, the
  renderer writes no file (it leaves the files as they were). It returns the empty
  sequence, and the generation action, which clears the output directory first, ends with
  an empty output directory and an archive of zero entries, whenever the reader accepts
  the file, as it does every file of at most 131072 characters. When a field of the header
  is beyond the field size limit of the csv module, the reader raises its error: nothing
  is returned and no archive is written.
\<close>

theorem header_only_upload_renders_nothing:
  assumes "header_only raw"
  shows "(open_read (DATA_DIR fs) csv_path = Inr raw \<longrightarrow>
            render_prompts render template_str csv_path fs =
              (fs, if snd (csv_reader (file_lines raw)) = None then Inr [] else Inl CsvError)) \<and>
         (query_first rows selected = Some t \<and>
          map_of (DATA_DIR (files st)) (U ''uploaded.csv'') \<noteq> Some Dir \<longrightarrow>
            generate_prompts render rows selected (Some raw) True st =
              (if snd (csv_reader (file_lines raw)) = None
               then (\<lparr>files =
                        \<lparr>DATA_DIR = dict_set (U ''uploaded.csv'') (File raw) (DATA_DIR (files st)),
                         OUTPUT_DIR = [], ZIP_PATH = Some []\<rparr>,
                      results = Some []\<rparr>, None)
               else (st\<lparr>files :=
                        \<lparr>DATA_DIR = dict_set (U ''uploaded.csv'') (File raw) (DATA_DIR (files st)),
                         OUTPUT_DIR = [], ZIP_PATH = ZIP_PATH (files st)\<rparr>\<rparr>,
                     Some CsvError))) \<and>
         (length raw \<le> field_limit \<longrightarrow> snd (csv_reader (file_lines raw)) = None) \<and>
         field_limit = 131072"
proof -
  obtain recs failure where cr: "csv_reader (file_lines raw) = (recs, failure)"
    by (cases "csv_reader (file_lines raw)")
  from header_only_no_rows [OF assms] cr have rows: "DictReader recs = []" by simp
  have err: "failure = Some e \<Longrightarrow> e = CsvError" for e
    using reader_records_error [of parse_reset "file_lines raw" e] cr
    by (simp add: csv_reader_def)
  have r: "render_prompts render template_str' p f =
      (f, if failure = None then Inr [] else Inl CsvError)"
    if "open_read (DATA_DIR f) p = Inr raw" for f p template_str'
  proof -
    have "f\<lparr>OUTPUT_DIR := OUTPUT_DIR f\<rparr> = f" by simp
    with that err show ?thesis
      by (cases failure) (simp_all add: render_prompts_def cr rows)
  qed
  show ?thesis
  proof (intro conjI impI)
    assume "open_read (DATA_DIR fs) csv_path = Inr raw"
    from r [OF this] show "render_prompts render template_str csv_path fs =
        (fs, if snd (csv_reader (file_lines raw)) = None then Inr [] else Inl CsvError)"
      by (simp add: cr)
  next
    assume a: "query_first rows selected = Some t \<and>
          map_of (DATA_DIR (files st)) (U ''uploaded.csv'') \<noteq> Some Dir"
    let ?data = "dict_set (U ''uploaded.csv'') (File raw) (DATA_DIR (files st))"
    let ?fs = "(files st)\<lparr>OUTPUT_DIR := [], DATA_DIR := ?data\<rparr>"
    from a have w: "open_write (DATA_DIR (files st)) (U ''uploaded.csv'') raw = Inr ?data"
      by (auto simp: open_write_def split: option.splits node.splits)
    have "open_read (DATA_DIR ?fs) (U ''uploaded.csv'') = Inr raw"
      using open_read_after_write [OF w] by simp
    from r [OF this] a w
    show "generate_prompts render rows selected (Some raw) True st =
              (if snd (csv_reader (file_lines raw)) = None
               then (\<lparr>files =
                        \<lparr>DATA_DIR = dict_set (U ''uploaded.csv'') (File raw) (DATA_DIR (files st)),
                         OUTPUT_DIR = [], ZIP_PATH = Some []\<rparr>,
                      results = Some []\<rparr>, None)
               else (st\<lparr>files :=
                        \<lparr>DATA_DIR = dict_set (U ''uploaded.csv'') (File raw) (DATA_DIR (files st)),
                         OUTPUT_DIR = [], ZIP_PATH = ZIP_PATH (files st)\<rparr>\<rparr>,
                     Some CsvError))"
      by (cases "files st") (simp add: generate_prompts_def zip_output_def cr)
  next
    assume "length raw \<le> field_limit"
    then show "snd (csv_reader (file_lines raw)) = None" by (rule small_file_accepted)
  next
    show "field_limit = 131072" by (simp add: field_limit_def)
  qed
qed

theorem header_only_upload_renders_nothing_witness:
  "header_only (U ''Name,Age'' @ [13, 10]) \<and>
   length (U ''Name,Age'' @ [13, 10]) \<le> field_limit \<and>
   render_prompts covered_only (U ''Hello {{ Name }}'') (U ''uploaded.csv'')
       \<lparr>DATA_DIR = [(U ''uploaded.csv'', File (U ''Name,Age'' @ [13, 10]))],
        OUTPUT_DIR = [(U ''kept.txt'', File (U ''old''))], ZIP_PATH = None\<rparr>
     = (\<lparr>DATA_DIR = [(U ''uploaded.csv'', File (U ''Name,Age'' @ [13, 10]))],
         OUTPUT_DIR = [(U ''kept.txt'', File (U ''old''))], ZIP_PATH = None\<rparr>, Inr []) \<and>
   generate_prompts covered_only example_table (Some (U ''greeting''))
       (Some (U ''Name,Age'' @ [13, 10])) True fresh_state
     = (\<lparr>files = \<lparr>DATA_DIR = [(U ''uploaded.csv'', File (U ''Name,Age'' @ [13, 10]))],
                   OUTPUT_DIR = [], ZIP_PATH = Some []\<rparr>,
         results = Some []\<rparr>, None)"
proof -
  have h: "header_only (U ''Name,Age'' @ [13, 10])"
    by (simp add: header_only_def file_lines_def decode_utf8_sig_def U_def)
  have l: "length (U ''Name,Age'' @ [13, 10]) \<le> field_limit"
    by (simp add: field_limit_def U_def)
  have r: "open_read (DATA_DIR \<lparr>DATA_DIR = [(U ''uploaded.csv'', File (U ''Name,Age'' @ [13, 10]))],
        OUTPUT_DIR = [(U ''kept.txt'', File (U ''old''))], ZIP_PATH = None\<rparr>) (U ''uploaded.csv'')
      = Inr (U ''Name,Age'' @ [13, 10])"
    by (simp add: open_read_def)
  have q: "query_first example_table (Some (U ''greeting'')) = Some (hd example_table) \<and>
      map_of (DATA_DIR (files fresh_state)) (U ''uploaded.csv'') \<noteq> Some Dir"
    by (simp add: query_first_def example_table_def fresh_state_def)
  from header_only_upload_renders_nothing [OF h,
      of "\<lparr>DATA_DIR = [(U ''uploaded.csv'', File (U ''Name,Age'' @ [13, 10]))],
        OUTPUT_DIR = [(U ''kept.txt'', File (U ''old''))], ZIP_PATH = None\<rparr>"
      "U ''uploaded.csv''" covered_only "U ''Hello {{ Name }}''"
      example_table "Some (U ''greeting'')" "hd example_table" fresh_state] h l r q
  show ?thesis by (simp add: fresh_state_def)
qed

text \<open>
  The claim as stated fails on a header that is one field of 131073 letters: the file
  consists of a header row only, and the renderer raises the reader's error instead of
  returning the empty sequence.
\<close>

theorem long_header_counterexample:
  "header_only (replicate (Suc field_limit) 65 @ [10]) \<and>
   Suc field_limit = 131073 \<and>
   render_prompts covered_only (U ''Hello {{ Name }}'') (U ''uploaded.csv'')
       \<lparr>DATA_DIR = [(U ''uploaded.csv'', File (replicate (Suc field_limit) 65 @ [10]))],
        OUTPUT_DIR = [], ZIP_PATH = None\<rparr>
     = (\<lparr>DATA_DIR = [(U ''uploaded.csv'', File (replicate (Suc field_limit) 65 @ [10]))],
         OUTPUT_DIR = [], ZIP_PATH = None\<rparr>, Inl CsvError)"
proof -
  have h: "header_only (replicate (Suc field_limit) 65 @ [10])"
    by (simp only: header_only_def long_header_lines list.sel list.pred_inject)
  have n: "Suc field_limit = 131073" by (simp add: field_limit_def)
  have "open_read [(U ''uploaded.csv'', File (replicate (Suc field_limit) 65 @ [10]))] (U ''uploaded.csv'')
      = Inr (replicate (Suc field_limit) 65 @ [10])"
    by (simp add: open_read_def)
  then have "render_prompts covered_only (U ''Hello {{ Name }}'') (U ''uploaded.csv'')
       \<lparr>DATA_DIR = [(U ''uploaded.csv'', File (replicate (Suc field_limit) 65 @ [10]))],
        OUTPUT_DIR = [], ZIP_PATH = None\<rparr>
     = (\<lparr>DATA_DIR = [(U ''uploaded.csv'', File (replicate (Suc field_limit) 65 @ [10]))],
         OUTPUT_DIR = [], ZIP_PATH = None\<rparr>, Inl CsvError)"
    by (simp add: render_prompts_def long_header_reader DictReader_def del: replicate.simps)
  with h n show ?thesis by blast
qed

end
